(* ===== verification/Prelude.thy ===== *)
theory Prelude
  imports Main "HOL-Library.Word" "HOL-Library.AList"
begin

text \<open>
  Shared vocabulary of the development: the machine types of the Go sources, Go maps as
  association lists, Go's binary search, and the generic lemmas on lists, maps and words
  that the component theories use.

  \<^item> \<open>u8\<close>, \<open>u16\<close>, \<open>u32\<close>, \<open>u64\<close> are Go's unsigned integers (arithmetic wraps);
  \<^item> \<open>h256\<close> is Go's \<open>[32]byte\<close>, as one 256-bit word in big-endian byte order;
  \<^item> \<open>bytes\<close> is \<open>[]byte\<close>;
  \<^item> \<open>gotime\<close> is \<open>time.Time\<close> in nanoseconds since Go's zero time, so \<open>IsZero\<close> is \<open>= 0\<close>;
  \<^item> \<open>duration\<close> is \<open>time.Duration\<close>; multiplications that may leave \<open>int64\<close> go through
    \<open>wrap64\<close>.
\<close>

type_synonym u8 = "8 word"
type_synonym u16 = "16 word"
type_synonym u32 = "32 word"
type_synonym u64 = "64 word"
type_synonym h256 = "256 word"
type_synonym bytes = "u8 list"
type_synonym gotime = int
type_synonym duration = int

named_theorems map_laws \<open>lookup laws of the maps of the model\<close>
named_theorems word_laws \<open>order and successor facts on machine words\<close>

definition wrap64 :: "int \<Rightarrow> int" where
  "wrap64 x = signed_take_bit 63 x"

lemma wrap64_id: "- (2 ^ 63) \<le> x \<Longrightarrow> x < 2 ^ 63 \<Longrightarrow> wrap64 x = x"
  unfolding wrap64_def by (rule signed_take_bit_int_eq_self) simp_all

subsection \<open>Words\<close>

lemma take_bit_uint: "take_bit LENGTH('a) (uint w) = uint w" for w :: "'a::len word"
  by (simp only: unsigned_take_bit_eq [symmetric]) (simp add: take_bit_word_eq_self)

lemma uint_drop_bit [word_laws]: "uint (drop_bit k w) = uint w div 2 ^ k"
  by (simp only: unsigned_drop_bit_eq take_bit_uint drop_bit_eq_div [where ?'a = int])

lemma word_less_uint [word_laws]: "a < b \<longleftrightarrow> uint a < uint b"
  by (rule word_less_iff_unsigned)

lemma word_le_uint [word_laws]: "a \<le> b \<longleftrightarrow> uint a \<le> uint b"
  by (rule word_le_def)

text \<open>The successor of a slot number that is not the last one.\<close>

lemma less_succ: "i < j \<Longrightarrow> i < i + 1" for i :: u32
  by unat_arith

lemma succ_le: "i < j \<Longrightarrow> i + 1 \<le> j" for i :: u32
  by unat_arith

lemma le_less_succ: "i < j \<Longrightarrow> k < i + 1 \<longleftrightarrow> k \<le> i" for i :: u32
  by unat_arith

subsection \<open>Go maps\<close>

text \<open>
  A Go map is an association list with distinct keys. \<open>map_put\<close> is \<open>m[k] = v\<close>,
  \<open>map_del\<close> is \<open>delete(m, k)\<close>, \<open>map_of\<close> reads.
\<close>

abbreviation map_put :: "'k \<Rightarrow> 'v \<Rightarrow> ('k \<times> 'v) list \<Rightarrow> ('k \<times> 'v) list" where
  "map_put \<equiv> AList.update"

abbreviation map_del :: "'k \<Rightarrow> ('k \<times> 'v) list \<Rightarrow> ('k \<times> 'v) list" where
  "map_del \<equiv> AList.delete"

abbreviation keys_distinct :: "('k \<times> 'v) list \<Rightarrow> bool" where
  "keys_distinct m \<equiv> distinct (map fst m)"

lemma map_of_put [map_laws, simp]: "map_of (map_put k v m) = (map_of m)(k \<mapsto> v)"
  by (simp add: update_conv')

lemma map_of_del [map_laws, simp]: "map_of (map_del k m) = (map_of m)(k := None)"
  by (simp add: AList.delete_conv')

lemma keys_distinct_put [simp]: "keys_distinct m \<Longrightarrow> keys_distinct (map_put k v m)"
  by (rule distinct_update)

lemma keys_distinct_del [simp]: "keys_distinct m \<Longrightarrow> keys_distinct (map_del k m)"
  by (rule distinct_delete)

lemma map_of_filter_key [map_laws]:
  "map_of (filter (\<lambda>(k, v). P k) m) k = (if P k then map_of m k else None)"
  by (induction m) auto

lemma keys_distinct_filter [simp]:
  "keys_distinct m \<Longrightarrow> keys_distinct (filter P m)"
  by (simp add: distinct_map_filter)

subsection \<open>Binary search\<close>

text \<open>
  \<open>sort.Search(n, f)\<close> of the Go standard library: the loop keeps \<open>i \<le> j\<close> and halves the
  interval; for a predicate that stays true once it holds it returns the first index that
  satisfies it, or \<open>n\<close>.
\<close>

function search_loop :: "(nat \<Rightarrow> bool) \<Rightarrow> nat \<Rightarrow> nat \<Rightarrow> nat" where
  "search_loop f i j =
     (if i < j then
        (let h = (i + j) div 2
         in if \<not> f h then search_loop f (h + 1) j else search_loop f i h)
      else i)"
  by pat_completeness auto
termination
  by (relation "measure (\<lambda>(f, i, j). j - i)") auto

declare search_loop.simps [simp del]

definition sort_Search :: "nat \<Rightarrow> (nat \<Rightarrow> bool) \<Rightarrow> nat" where
  "sort_Search n f = search_loop f 0 n"

lemma search_loop_spec:
  assumes "i \<le> j" and "j \<le> n"
    and "\<And>a b. a \<le> b \<Longrightarrow> b < n \<Longrightarrow> f a \<Longrightarrow> f b"
    and "\<And>k. k < i \<Longrightarrow> \<not> f k" and "\<And>k. j \<le> k \<Longrightarrow> k < n \<Longrightarrow> f k"
  shows "search_loop f i j \<le> n \<and> (\<forall>k < search_loop f i j. \<not> f k)
    \<and> (\<forall>k. search_loop f i j \<le> k \<longrightarrow> k < n \<longrightarrow> f k)"
  using assms
proof (induction f i j rule: search_loop.induct)
  case (1 f i j)
  let ?h = "(i + j) div 2"
  show ?case
  proof (cases "i < j")
    case False
    then have "search_loop f i j = i" by (simp add: search_loop.simps)
    with False "1.prems" show ?thesis by auto
  next
    case True
    then have h: "i \<le> ?h" "?h < j" by auto
    show ?thesis
    proof (cases "f ?h")
      case True
      have up: "f k" if "?h \<le> k" "k < n" for k
        using "1.prems"(3) that True by blast
      have "search_loop f i ?h \<le> n \<and> (\<forall>k < search_loop f i ?h. \<not> f k)
        \<and> (\<forall>k. search_loop f i ?h \<le> k \<longrightarrow> k < n \<longrightarrow> f k)"
        by (rule "1.IH"(2) [OF \<open>i < j\<close> refl]) (use True h "1.prems" up in auto)
      with True \<open>i < j\<close> show ?thesis by (simp add: search_loop.simps [of f i j] Let_def)
    next
      case False
      have down: "\<not> f k" if "k < ?h + 1" for k
      proof
        assume "f k"
        have "f ?h"
          by (rule "1.prems"(3) [of k]) (use \<open>f k\<close> that h "1.prems"(2) in auto)
        with False show False by simp
      qed
      have "search_loop f (?h + 1) j \<le> n \<and> (\<forall>k < search_loop f (?h + 1) j. \<not> f k)
        \<and> (\<forall>k. search_loop f (?h + 1) j \<le> k \<longrightarrow> k < n \<longrightarrow> f k)"
        by (rule "1.IH"(1) [OF \<open>i < j\<close> refl]) (use False h "1.prems" down in auto)
      with False \<open>i < j\<close> show ?thesis by (simp add: search_loop.simps [of f i j] Let_def)
    qed
  qed
qed

lemma sort_Search_spec:
  assumes "\<And>a b. a \<le> b \<Longrightarrow> b < n \<Longrightarrow> f a \<Longrightarrow> f b"
  shows "sort_Search n f \<le> n" and "k < sort_Search n f \<Longrightarrow> \<not> f k"
    and "sort_Search n f \<le> k \<Longrightarrow> k < n \<Longrightarrow> f k"
  using search_loop_spec [of 0 n n f] assms by (auto simp: sort_Search_def)

definition up_closed :: "('a::ord \<Rightarrow> bool) \<Rightarrow> bool" where
  "up_closed P \<longleftrightarrow> (\<forall>a b. a \<le> b \<longrightarrow> P a \<longrightarrow> P b)"

lemma up_closed_bounds [simp]:
  "up_closed (\<lambda>y. (x::'a::linorder) \<le> y)" "up_closed (\<lambda>y. x < y)"
  by (auto simp: up_closed_def)

text \<open>On a sorted list and an upward closed predicate the search splits the list.\<close>

lemma sort_Search_sorted:
  fixes xs :: "'a::linorder list"
  assumes "sorted xs" and "up_closed P"
  shows "sort_Search (length xs) (\<lambda>i. P (xs ! i)) = length (takeWhile (\<lambda>x. \<not> P x) xs)"
    (is "?s = ?t")
proof -
  have mono: "P (xs ! b)" if "a \<le> b" "b < length xs" "P (xs ! a)" for a b
    using that assms(2) sorted_nth_mono [OF assms(1)] unfolding up_closed_def by blast
  have spec: "?s \<le> length xs" "\<And>k. k < ?s \<Longrightarrow> \<not> P (xs ! k)"
    "\<And>k. ?s \<le> k \<Longrightarrow> k < length xs \<Longrightarrow> P (xs ! k)"
    using sort_Search_spec [of "length xs" "\<lambda>i. P (xs ! i)"] mono by blast+
  show ?thesis
  proof (rule antisym)
    show "?s \<le> ?t"
    proof (rule ccontr)
      assume "\<not> ?s \<le> ?t"
      then have lt: "?t < ?s" by simp
      with spec(1) have "?t < length xs" by simp
      then have "P (xs ! ?t)" using nth_length_takeWhile [of "\<lambda>x. \<not> P x" xs] by simp
      with spec(2) [OF lt] show False by simp
    qed
    show "?t \<le> ?s"
    proof (rule ccontr)
      assume "\<not> ?t \<le> ?s"
      then have lt: "?s < ?t" by simp
      have "?t \<le> length xs" by (rule length_takeWhile_le)
      with lt have "P (xs ! ?s)" using spec(3) [OF le_refl] by simp
      moreover have "\<not> P (xs ! ?s)"
        using lt takeWhile_nth [of ?s "\<lambda>x. \<not> P x" xs] set_takeWhileD nth_mem by metis
      ultimately show False by simp
    qed
  qed
qed

end
