(* ===== verification/SlotMap.thy ===== *)
theory SlotMap
  imports Prelude
begin

text \<open>
  \<open>service/validator/simplex/slots.go\<close>: the lazily populated per-slot store with its
  finalization horizon (\<open>slotMap\<close>) and the ordered set of skip-run ends (\<open>sortedU32\<close>).
  The two interfaces the engine relies on are the locales \<open>slot_store\<close> and \<open>ordered_set\<close>;
  both are interpreted on the definitions below.
\<close>

section \<open>The per-slot store\<close>

record 'a slotMap =
  firstNonFinalized :: u32
  slots :: "(u32 \<times> 'a) list"

definition newSlotMap :: "'a slotMap" where
  "newSlotMap = \<lparr>firstNonFinalized = 0, slots = []\<rparr>"

text \<open>
  \<open>at\<close> returns the state of a slot together with the map, in which a missing slot has been
  created (\<open>new\<close> is what the map's \<open>newSlot\<close> builds). The Go code then writes through the
  returned pointer; \<open>put_slot\<close> is that write.
\<close>

definition slot_at :: "'a \<Rightarrow> u32 \<Rightarrow> 'a slotMap \<Rightarrow> 'a option \<times> 'a slotMap" where
  "slot_at new slot m =
     (if slot < firstNonFinalized m then (None, m)
      else case map_of (slots m) slot of
             Some s \<Rightarrow> (Some s, m)
           | None \<Rightarrow> (Some new, m\<lparr>slots := map_put slot new (slots m)\<rparr>))"

definition put_slot :: "u32 \<Rightarrow> 'a \<Rightarrow> 'a slotMap \<Rightarrow> 'a slotMap" where
  "put_slot slot s m = m\<lparr>slots := map_put slot s (slots m)\<rparr>"

definition peek :: "u32 \<Rightarrow> 'a slotMap \<Rightarrow> 'a option" where
  "peek slot m = (if slot < firstNonFinalized m then None else map_of (slots m) slot)"

text \<open>The range sweep of \<open>notifyFinalized\<close>: \<open>for k := old; k < first; k++ { delete(slots, k) }\<close>.\<close>

fun delete_slots :: "u32 list \<Rightarrow> (u32 \<times> 'a) list \<Rightarrow> (u32 \<times> 'a) list" where
  "delete_slots [] ss = ss"
| "delete_slots (k # ks) ss = delete_slots ks (map_del k ss)"

definition slot_range :: "u32 \<Rightarrow> u32 \<Rightarrow> u32 list" where
  "slot_range lo hi = map of_nat [unat lo ..< unat hi]"

definition notifyFinalized :: "u32 \<Rightarrow> 'a slotMap \<Rightarrow> 'a slotMap" where
  "notifyFinalized slot m =
     (if slot + 1 \<le> firstNonFinalized m then m
      else
        let old = firstNonFinalized m;
            first = slot + 1;
            delta = first - old
        in if int (unat delta) \<le> int (length (slots m))
           then m\<lparr>firstNonFinalized := first,
                  slots := delete_slots (slot_range old first) (slots m)\<rparr>
           else m\<lparr>firstNonFinalized := first,
                  slots := filter (\<lambda>(k, s). \<not> k < first) (slots m)\<rparr>)"

fun max_end :: "u32 \<Rightarrow> (u32 \<times> 'a) list \<Rightarrow> u32" where
  "max_end e [] = e"
| "max_end e ((k, s) # ss) = max_end (if k + 1 > e then k + 1 else e) ss"

definition interval :: "'a slotMap \<Rightarrow> u32 \<times> u32" where
  "interval m = (firstNonFinalized m, max_end (firstNonFinalized m) (slots m))"

text \<open>
  The invariant: keys are distinct and nothing below the finalization horizon is kept.
  \<open>view\<close> is the abstract content: the tracked state of every slot.
\<close>

definition view :: "'a slotMap \<Rightarrow> u32 \<Rightarrow> 'a option" where
  "view m = map_of (slots m)"

definition slotMap_ok :: "'a slotMap \<Rightarrow> bool" where
  "slotMap_ok m \<longleftrightarrow> keys_distinct (slots m)
     \<and> (\<forall>k s. view m k = Some s \<longrightarrow> firstNonFinalized m \<le> k)"

lemma view_new [simp]: "view newSlotMap = Map.empty"
  by (simp add: view_def newSlotMap_def)

lemma slotMap_ok_new [simp]: "slotMap_ok newSlotMap"
  by (simp add: slotMap_ok_def, simp add: newSlotMap_def)

lemma horizon_new [simp]: "firstNonFinalized newSlotMap = 0"
  by (simp add: newSlotMap_def)

lemma slotMap_ok_view: "slotMap_ok m \<Longrightarrow> view m k = Some s \<Longrightarrow> firstNonFinalized m \<le> k"
  by (auto simp: slotMap_ok_def)

lemma fst_slot_at:
  "fst (slot_at new i m) =
     (if i < firstNonFinalized m then None
      else Some (case view m i of Some s \<Rightarrow> s | None \<Rightarrow> new))"
  by (simp add: slot_at_def view_def split: option.split)

lemma horizon_slot_at [simp]: "firstNonFinalized (snd (slot_at new i m)) = firstNonFinalized m"
  by (simp add: slot_at_def split: option.split)

lemma view_slot_at:
  "view (snd (slot_at new i m)) =
     (if i < firstNonFinalized m \<or> view m i \<noteq> None then view m else (view m)(i \<mapsto> new))"
  by (auto simp: slot_at_def view_def split: option.split)

lemma keys_slot_at:
  "keys_distinct (slots m) \<Longrightarrow> keys_distinct (slots (snd (slot_at new i m)))"
  by (simp add: slot_at_def distinct_update split: option.split)

lemma slotMap_ok_slot_at [simp]: "slotMap_ok m \<Longrightarrow> slotMap_ok (snd (slot_at new i m))"
  by (auto simp: slotMap_ok_def view_slot_at keys_slot_at not_less)

lemma horizon_put_slot [simp]: "firstNonFinalized (put_slot i s m) = firstNonFinalized m"
  by (simp add: put_slot_def)

lemma view_put_slot [simp]: "view (put_slot i s m) = (view m)(i \<mapsto> s)"
  by (simp add: put_slot_def view_def)

lemma slotMap_ok_put_slot [simp]:
  "slotMap_ok m \<Longrightarrow> firstNonFinalized m \<le> i \<Longrightarrow> slotMap_ok (put_slot i s m)"
  by (auto simp: slotMap_ok_def, simp add: put_slot_def distinct_update)

lemma peek_view: "slotMap_ok m \<Longrightarrow> peek i m = view m i"
proof (cases "i < firstNonFinalized m")
  case True
  assume "slotMap_ok m"
  with True have "view m i = None"
    using slotMap_ok_view [of m i] by (cases "view m i") auto
  with True show ?thesis by (simp add: peek_def)
qed (simp add: peek_def view_def)

lemma map_of_delete_slots:
  "map_of (delete_slots ks ss) k = (if k \<in> set ks then None else map_of ss k)"
  by (induction ks ss rule: delete_slots.induct) auto

lemma keys_delete_slots: "keys_distinct ss \<Longrightarrow> keys_distinct (delete_slots ks ss)"
  by (induction ks ss rule: delete_slots.induct) (auto simp: distinct_delete)

lemma set_slot_range: "set (slot_range lo hi) = {k. lo \<le> k \<and> k < hi}"
proof -
  have "k \<in> set (slot_range lo hi)" if "lo \<le> k" "k < hi" for k
  proof -
    have "unat k \<in> {unat lo ..< unat hi}"
      using that by (simp add: word_le_nat_alt word_less_nat_alt)
    moreover have "k = of_nat (unat k)" by simp
    ultimately show ?thesis unfolding slot_range_def by (metis image_eqI set_map set_upt)
  qed
  moreover have "lo \<le> k \<and> k < hi" if "k \<in> set (slot_range lo hi)" for k
  proof -
    from that obtain n where n: "unat lo \<le> n" "n < unat hi" "k = of_nat n"
      by (auto simp: slot_range_def)
    then have "n < 2 ^ LENGTH(32)" using unsigned_less [of hi, where ?'a = nat] by simp
    with n have "unat k = n" by (simp add: unat_of_nat take_bit_nat_eq_self)
    with n show ?thesis by (simp add: word_le_nat_alt word_less_nat_alt)
  qed
  ultimately show ?thesis by auto
qed

text \<open>
  Both sweeps of \<open>notifyFinalized\<close> leave the same content: exactly the slots above the new
  horizon.
\<close>

lemma notifyFinalized_spec:
  assumes "slotMap_ok m"
  shows "slotMap_ok (notifyFinalized i m)"
    and "firstNonFinalized (notifyFinalized i m) = max (firstNonFinalized m) (i + 1)"
    and "view (notifyFinalized i m) k =
      (if k < firstNonFinalized (notifyFinalized i m) then None else view m k)"
proof -
  have low: "view m k = None" if "k < firstNonFinalized m" for k
    using assms slotMap_ok_view [of m k] that by (cases "view m k") auto
  show "firstNonFinalized (notifyFinalized i m) = max (firstNonFinalized m) (i + 1)"
    by (auto simp: notifyFinalized_def Let_def max_def)
  show content: "view (notifyFinalized i m) k =
      (if k < firstNonFinalized (notifyFinalized i m) then None else view m k)" for k
    using low [of k]
    by (auto simp: notifyFinalized_def Let_def view_def map_of_delete_slots set_slot_range
        map_of_filter_key not_less not_le)
  have "keys_distinct (slots (notifyFinalized i m))"
    using assms by (simp add: slotMap_ok_def notifyFinalized_def Let_def keys_delete_slots)
  then show "slotMap_ok (notifyFinalized i m)"
    by (auto simp: slotMap_ok_def content not_less split: if_splits)
qed

section \<open>The slot store interface\<close>

text \<open>
  What the engine relies on: a store with a horizon, whose reads below the horizon fail,
  whose reads above it create missing entries, and which forgets exactly what finalization
  passes. The laws give the read-modify-write pattern of every pool and voter operation.
\<close>

locale slot_store =
  fixes at :: "'a \<Rightarrow> u32 \<Rightarrow> 'm \<Rightarrow> 'a option \<times> 'm"
    and put :: "u32 \<Rightarrow> 'a \<Rightarrow> 'm \<Rightarrow> 'm"
    and prune :: "u32 \<Rightarrow> 'm \<Rightarrow> 'm"
    and horizon :: "'m \<Rightarrow> u32"
    and content :: "'m \<Rightarrow> u32 \<Rightarrow> 'a option"
    and ok :: "'m \<Rightarrow> bool"
  assumes at_result: "fst (at new i m) =
      (if i < horizon m then None else Some (case content m i of Some s \<Rightarrow> s | None \<Rightarrow> new))"
    and at_horizon: "horizon (snd (at new i m)) = horizon m"
    and at_content: "content (snd (at new i m)) =
      (if i < horizon m \<or> content m i \<noteq> None then content m else (content m)(i \<mapsto> new))"
    and at_ok: "ok m \<Longrightarrow> ok (snd (at new i m))"
    and put_horizon: "horizon (put i s m) = horizon m"
    and put_content: "content (put i s m) = (content m)(i \<mapsto> s)"
    and put_ok: "ok m \<Longrightarrow> horizon m \<le> i \<Longrightarrow> ok (put i s m)"
    and prune_ok: "ok m \<Longrightarrow> ok (prune i m)"
    and prune_horizon: "ok m \<Longrightarrow> horizon (prune i m) = max (horizon m) (i + 1)"
    and prune_content: "ok m \<Longrightarrow> content (prune i m) k =
      (if k < horizon (prune i m) then None else content m k)"
begin

definition modify :: "'a \<Rightarrow> u32 \<Rightarrow> ('a \<Rightarrow> 'a) \<Rightarrow> 'm \<Rightarrow> 'm" where
  "modify new i f m =
     (case at new i m of (Some s, m') \<Rightarrow> put i (f s) m' | (None, m') \<Rightarrow> m')"

lemma modify_horizon: "horizon (modify new i f m) = horizon m"
proof -
  have "horizon (snd (at new i m)) = horizon m" by (rule at_horizon)
  then show ?thesis
    by (cases "at new i m") (auto simp: modify_def put_horizon split: option.split)
qed

lemma modify_content:
  "content (modify new i f m) =
     (if i < horizon m then content m
      else (content m)(i \<mapsto> f (case content m i of Some s \<Rightarrow> s | None \<Rightarrow> new)))"
proof (cases "at new i m")
  case (Pair r m')
  then show ?thesis
    using at_result [of new i m] at_content [of new i m]
    by (auto simp: modify_def put_content fun_upd_def split: if_splits)
qed

lemma modify_ok: "ok m \<Longrightarrow> ok (modify new i f m)"
proof (cases "at new i m")
  case (Pair r m')
  assume "ok m"
  then show ?thesis
    using Pair at_result [of new i m] at_ok [of m new i] at_horizon [of new i m]
    by (auto simp: modify_def put_ok not_less split: option.split if_splits)
qed

text \<open>A per-slot property is kept by every operation of the store.\<close>

lemma at_all:
  assumes "\<And>k s. content m k = Some s \<Longrightarrow> P k s" and "P i new"
  shows "content (snd (at new i m)) k = Some s \<Longrightarrow> P k s"
  using assms by (auto simp: at_content split: if_splits)

lemma modify_all:
  assumes "\<And>k s. content m k = Some s \<Longrightarrow> P k s" and "P i new"
    and "\<And>s. P i s \<Longrightarrow> P i (f s)"
  shows "content (modify new i f m) k = Some s \<Longrightarrow> P k s"
  using assms by (auto simp: modify_content split: if_splits option.splits)

lemma prune_all:
  assumes "ok m" and "\<And>k s. content m k = Some s \<Longrightarrow> P k s"
  shows "content (prune i m) k = Some s \<Longrightarrow> P k s"
  using assms by (auto simp: prune_content split: if_splits)

end

interpretation store: slot_store slot_at put_slot notifyFinalized firstNonFinalized view slotMap_ok
proof unfold_locales
  fix m :: "'a slotMap" and i k :: u32
  assume "slotMap_ok m"
  then show "firstNonFinalized (notifyFinalized i m) = max (firstNonFinalized m) (i + 1)"
    and "view (notifyFinalized i m) k =
      (if k < firstNonFinalized (notifyFinalized i m) then None else view m k)"
    and "slotMap_ok (notifyFinalized i m)"
    by (rule notifyFinalized_spec)+
qed (simp_all add: fst_slot_at view_slot_at)

text \<open>The read-modify-write of the model's operations.\<close>

definition modify_slot :: "'a \<Rightarrow> u32 \<Rightarrow> ('a \<Rightarrow> 'a) \<Rightarrow> 'a slotMap \<Rightarrow> 'a slotMap" where
  "modify_slot new i f m =
     (case slot_at new i m of (Some s, m') \<Rightarrow> put_slot i (f s) m' | (None, m') \<Rightarrow> m')"

lemma modify_slot_eq: "modify_slot = store.modify"
  by (intro ext) (simp add: modify_slot_def store.modify_def)

lemmas modify_slot_horizon [simp] = store.modify_horizon [folded modify_slot_eq]
lemmas modify_slot_view = store.modify_content [folded modify_slot_eq]
lemmas modify_slot_ok [simp] = store.modify_ok [folded modify_slot_eq]
lemmas modify_slot_all = store.modify_all [folded modify_slot_eq]

section \<open>The ordered set of run ends\<close>

type_synonym sortedU32 = "u32 list"

definition lowerBound :: "u32 \<Rightarrow> sortedU32 \<Rightarrow> u32 option" where
  "lowerBound x v =
     (let i = sort_Search (length v) (\<lambda>i. v ! i \<ge> x)
      in if i = length v then None else Some (v ! i))"

definition insert_u32 :: "u32 \<Rightarrow> sortedU32 \<Rightarrow> sortedU32" where
  "insert_u32 x v =
     (let i = sort_Search (length v) (\<lambda>i. v ! i \<ge> x)
      in if i < length v \<and> v ! i = x then v else take i v @ x # drop i v)"

definition erase :: "u32 \<Rightarrow> sortedU32 \<Rightarrow> sortedU32" where
  "erase x v =
     (let i = sort_Search (length v) (\<lambda>i. v ! i \<ge> x)
      in if i < length v \<and> v ! i = x then take i v @ drop (i + 1) v else v)"

definition eraseUpTo :: "u32 \<Rightarrow> sortedU32 \<Rightarrow> sortedU32" where
  "eraseUpTo x v = drop (sort_Search (length v) (\<lambda>i. v ! i > x)) v"

definition sorted_ok :: "sortedU32 \<Rightarrow> bool" where
  "sorted_ok v \<longleftrightarrow> sorted v \<and> distinct v"

text \<open>A sorted list splits, at the search result, into what fails the predicate and the rest.\<close>

lemma sorted_filter_split:
  fixes v :: "'a::linorder list"
  assumes "sorted v" and "up_closed P"
  shows "takeWhile (\<lambda>y. \<not> P y) v = filter (\<lambda>y. \<not> P y) v"
    and "dropWhile (\<lambda>y. \<not> P y) v = filter P v"
proof -
  have "takeWhile (\<lambda>y. \<not> P y) v = filter (\<lambda>y. \<not> P y) v \<and> dropWhile (\<lambda>y. \<not> P y) v = filter P v"
    using assms(1)
  proof (induction v)
    case (Cons a v)
    show ?case
    proof (cases "P a")
      case True
      then have "\<forall>y \<in> set v. P y" using Cons.prems assms(2) by (auto simp: up_closed_def)
      then show ?thesis using True by (auto simp: filter_empty_conv filter_id_conv)
    qed (use Cons in auto)
  qed simp
  then show "takeWhile (\<lambda>y. \<not> P y) v = filter (\<lambda>y. \<not> P y) v"
    and "dropWhile (\<lambda>y. \<not> P y) v = filter P v" by simp_all
qed

lemma sort_Search_filter:
  fixes v :: "'a::linorder list"
  assumes "sorted v" and "up_closed P"
  defines "i \<equiv> sort_Search (length v) (\<lambda>i. P (v ! i))"
  shows "take i v = filter (\<lambda>y. \<not> P y) v" and "drop i v = filter P v"
    and "i < length v \<longleftrightarrow> filter P v \<noteq> []" and "i \<le> length v"
    and "filter P v \<noteq> [] \<Longrightarrow> v ! i = hd (filter P v)"
proof -
  have i: "i = length (takeWhile (\<lambda>y. \<not> P y) v)"
    using sort_Search_sorted [OF assms(1,2)] by (simp add: i_def)
  show t: "take i v = filter (\<lambda>y. \<not> P y) v"
    unfolding i using sorted_filter_split(1) [OF assms(1,2)] takeWhile_eq_take [of _ v] by metis
  show d: "drop i v = filter P v"
    unfolding i using sorted_filter_split(2) [OF assms(1,2)] dropWhile_eq_drop [of _ v] by metis
  show le: "i \<le> length v" by (simp add: i length_takeWhile_le)
  show lt: "i < length v \<longleftrightarrow> filter P v \<noteq> []"
    by (metis d drop_eq_Nil not_le)
  show "filter P v \<noteq> [] \<Longrightarrow> v ! i = hd (filter P v)"
    by (metis d hd_drop_conv_nth lt)
qed

lemma lowerBound_eq:
  "sorted v \<Longrightarrow> lowerBound x v =
     (case filter (\<lambda>y. x \<le> y) v of [] \<Rightarrow> None | y # ys \<Rightarrow> Some y)"
  using sort_Search_filter [of v "\<lambda>y. x \<le> y"]
  by (auto simp: lowerBound_def Let_def split: list.split)

lemma strict_above:
  fixes v :: "'a::linorder list"
  assumes "sorted v" and "distinct v"
  shows "filter (\<lambda>y. x \<le> y) v = (if x \<in> set v then [x] else []) @ filter (\<lambda>y. x < y) v"
  using assms
proof (induction v)
  case (Cons a v)
  have "filter (\<lambda>y. x \<le> y) v = v" "filter (\<lambda>y. x < y) v = v" if "x < a"
    using Cons.prems that by (auto simp: filter_id_conv)
  moreover have "filter (\<lambda>y. a \<le> y) v = v" "filter (\<lambda>y. a < y) v = v"
    using Cons.prems by (auto simp: filter_id_conv order.strict_iff_order)
  ultimately show ?case using Cons by (auto simp: not_le)
qed simp

lemma sorted_split3:
  fixes v :: "'a::linorder list"
  assumes "sorted v" and "distinct v"
  shows "filter (\<lambda>y. y < x) v @ (if x \<in> set v then [x] else []) @ filter (\<lambda>y. x < y) v = v"
proof -
  let ?i = "sort_Search (length v) (\<lambda>i. x \<le> v ! i)"
  have "take ?i v @ drop ?i v = v" by simp
  then show ?thesis
    unfolding sort_Search_filter(1,2) [OF assms(1) up_closed_bounds(1)] strict_above [OF assms]
    by (simp add: not_le)
qed

lemma insert_u32_eq:
  assumes "sorted_ok v"
  shows "insert_u32 x v = filter (\<lambda>y. y < x) v @ x # filter (\<lambda>y. x < y) v"
proof -
  have v: "sorted v" "distinct v" using assms by (simp_all add: sorted_ok_def)
  note f = sort_Search_filter [OF v(1) up_closed_bounds(1), of x]
  let ?i = "sort_Search (length v) (\<lambda>i. x \<le> v ! i)"
  note split = sorted_split3 [OF v, of x]
  show ?thesis
  proof (cases "x \<in> set v")
    case True
    then have "filter (\<lambda>y. x \<le> y) v = x # filter (\<lambda>y. x < y) v" by (simp add: strict_above [OF v])
    then show ?thesis using f(3,5) split True by (simp add: insert_u32_def Let_def)
  next
    case False
    then have eq: "filter (\<lambda>y. x \<le> y) v = filter (\<lambda>y. x < y) v" by (simp add: strict_above [OF v])
    have "\<not> (?i < length v \<and> v ! ?i = x)" using False by (auto dest: nth_mem)
    then have "insert_u32 x v = take ?i v @ x # drop ?i v"
      unfolding insert_u32_def Let_def by (rule if_not_P)
    then show ?thesis unfolding f(1,2) eq by (simp add: not_le)
  qed
qed

lemma erase_eq:
  assumes "sorted_ok v"
  shows "erase x v = filter (\<lambda>y. y \<noteq> x) v"
proof -
  have v: "sorted v" "distinct v" using assms by (simp_all add: sorted_ok_def)
  note f = sort_Search_filter [OF v(1) up_closed_bounds(1), of x]
  let ?i = "sort_Search (length v) (\<lambda>i. x \<le> v ! i)"
  show ?thesis
  proof (cases "x \<in> set v")
    case True
    then have hd: "filter (\<lambda>y. x \<le> y) v = x # filter (\<lambda>y. x < y) v" by (simp add: strict_above [OF v])
    have "drop (?i + 1) v = filter (\<lambda>y. x < y) v"
      using f(2) hd by (metis Suc_eq_plus1 drop_Suc list.sel(3) tl_drop)
    then have "erase x v = filter (\<lambda>y. y < x) v @ filter (\<lambda>y. x < y) v"
      using f hd by (simp add: erase_def Let_def not_le)
    also have "\<dots> = filter (\<lambda>y. y \<noteq> x) (filter (\<lambda>y. y < x) v @ x # filter (\<lambda>y. x < y) v)"
      by (simp, intro arg_cong2 [where f = "(@)"] filter_cong) auto
    also have "filter (\<lambda>y. y < x) v @ x # filter (\<lambda>y. x < y) v = v"
      using sorted_split3 [OF v, of x] True by simp
    finally show ?thesis .
  next
    case False
    then have "\<not> (?i < length v \<and> v ! ?i = x)" by (auto dest: nth_mem)
    then have "erase x v = v" unfolding erase_def Let_def by (rule if_not_P)
    also have "\<dots> = filter (\<lambda>y. y \<noteq> x) v" using False by (metis (mono_tags) filter_True)
    finally show ?thesis .
  qed
qed

lemma eraseUpTo_eq: "sorted_ok v \<Longrightarrow> eraseUpTo x v = filter (\<lambda>y. x < y) v"
  using sort_Search_filter(2) [of v "\<lambda>y. x < y"] by (simp add: eraseUpTo_def sorted_ok_def)

text \<open>
  The interface the pool uses: a finite set of run ends with least-upper-bound queries.
\<close>

locale ordered_set =
  fixes empty :: 's
    and ins :: "'e::linorder \<Rightarrow> 's \<Rightarrow> 's"
    and del :: "'e \<Rightarrow> 's \<Rightarrow> 's"
    and del_upto :: "'e \<Rightarrow> 's \<Rightarrow> 's"
    and least_from :: "'e \<Rightarrow> 's \<Rightarrow> 'e option"
    and elems :: "'s \<Rightarrow> 'e set"
    and ok :: "'s \<Rightarrow> bool"
  assumes empty_ok: "ok empty" and empty_elems: "elems empty = {}"
    and ins_ok: "ok s \<Longrightarrow> ok (ins x s)" and ins_elems: "ok s \<Longrightarrow> elems (ins x s) = insert x (elems s)"
    and del_ok: "ok s \<Longrightarrow> ok (del x s)" and del_elems: "ok s \<Longrightarrow> elems (del x s) = elems s - {x}"
    and del_upto_ok: "ok s \<Longrightarrow> ok (del_upto x s)"
    and del_upto_elems: "ok s \<Longrightarrow> elems (del_upto x s) = {y \<in> elems s. x < y}"
    and least_none: "ok s \<Longrightarrow> least_from x s = None \<longleftrightarrow> (\<forall>y \<in> elems s. y < x)"
    and least_some: "ok s \<Longrightarrow> least_from x s = Some y \<longleftrightarrow>
      y \<in> elems s \<and> x \<le> y \<and> (\<forall>z \<in> elems s. x \<le> z \<longrightarrow> y \<le> z)"
begin

lemma least_exists: "ok s \<Longrightarrow> y \<in> elems s \<Longrightarrow> x \<le> y \<Longrightarrow> \<exists>z. least_from x s = Some z"
  by (cases "least_from x s") (auto simp: least_none)

end

interpretation runs: ordered_set "[]" insert_u32 erase eraseUpTo lowerBound set sorted_ok
proof unfold_locales
  fix s :: sortedU32 and x y :: u32
  assume ok: "sorted_ok s"
  then show "set (insert_u32 x s) = insert x (set s)" by (auto simp: insert_u32_eq)
  show "sorted_ok (insert_u32 x s)"
    using ok insert_u32_eq [OF ok, of x]
    by (auto simp: sorted_ok_def sorted_append sorted_wrt_filter)
  show "sorted_ok (erase x s)" "set (erase x s) = set s - {x}"
    using ok erase_eq [OF ok, of x] by (auto simp: sorted_ok_def sorted_wrt_filter)
  show "sorted_ok (eraseUpTo x s)" "set (eraseUpTo x s) = {y \<in> set s. x < y}"
    using ok eraseUpTo_eq [OF ok, of x] by (auto simp: sorted_ok_def sorted_wrt_filter)
  have lb: "lowerBound x s = (case filter (\<lambda>y. x \<le> y) s of [] \<Rightarrow> None | y # ys \<Rightarrow> Some y)"
    using ok by (simp add: lowerBound_eq sorted_ok_def)
  have none: "lowerBound x s = None \<longleftrightarrow> filter (\<lambda>y. x \<le> y) s = []"
    by (simp add: lb split: list.split)
  then show "lowerBound x s = None \<longleftrightarrow> (\<forall>y \<in> set s. y < x)"
    by (simp add: filter_empty_conv not_le)
  show "lowerBound x s = Some y \<longleftrightarrow>
      y \<in> set s \<and> x \<le> y \<and> (\<forall>z \<in> set s. x \<le> z \<longrightarrow> y \<le> z)"
  proof (cases "filter (\<lambda>y. x \<le> y) s")
    case Nil
    then show ?thesis using none by (auto simp: filter_empty_conv)
  next
    case (Cons a as)
    have "sorted (a # as)" unfolding Cons [symmetric]
      using ok by (simp add: sorted_ok_def sorted_wrt_filter)
    moreover have mem: "z \<in> set s \<and> x \<le> z \<longleftrightarrow> z \<in> set (a # as)" for z
      unfolding Cons [symmetric] by simp
    ultimately have "a \<in> set s \<and> x \<le> a" "\<And>z. z \<in> set s \<Longrightarrow> x \<le> z \<Longrightarrow> a \<le> z"
      by (metis list.set_intros(1)) (metis \<open>sorted (a # as)\<close> mem order_refl set_ConsD sorted_simps(2))
    then show ?thesis using Cons by (auto simp: lb intro: antisym)
  qed
qed (simp_all add: sorted_ok_def)

end
