(* ===== verification/Float64.thy ===== *)
theory Float64
  imports Prelude Complex_Main
begin

text \<open>
  Go's \<open>float64\<close> as far as the sources use it: IEEE 754 binary64 with rounding to nearest,
  ties to even. A finite value is the rational it denotes; signed zeros are not told apart,
  no modelled code observes the sign of a zero.
\<close>

datatype float64 = Fin rat | PosInf | NegInf | NaN

text \<open>Rounding a rational to the nearest integer, ties to even.\<close>

definition round_even :: "rat \<Rightarrow> int" where
  "round_even q =
     (let f = \<lfloor>q\<rfloor>; d = q - of_int f
      in if d < 1 / 2 then f
         else if d > 1 / 2 then f + 1
         else if even f then f else f + 1)"

text \<open>\<open>pow2 k\<close> is \<open>2\<close> to an integer exponent; \<open>bits n\<close> counts binary digits.\<close>

definition pow2 :: "int \<Rightarrow> rat" where
  "pow2 k = (if 0 \<le> k then 2 ^ nat k else 1 / 2 ^ nat (- k))"

function bits :: "int \<Rightarrow> int" where
  "bits n = (if n \<le> 0 then 0 else 1 + bits (n div 2))"
  by pat_completeness auto
termination
  by (relation "measure nat") auto

declare bits.simps [simp del]

text \<open>
  The binary exponent of a positive rational: the \<open>k\<close> with \<open>2^k \<le> m < 2^(k+1)\<close>; the digit
  counts of numerator and denominator determine it up to one.
\<close>

definition exponent :: "rat \<Rightarrow> int" where
  "exponent m =
     (let (n, d) = quotient_of m;
          k = bits n - bits d
      in if pow2 k \<le> m then k else k - 1)"

definition f64_round :: "rat \<Rightarrow> float64" where
  "f64_round x =
     (if x = 0 then Fin 0
      else
        let m = \<bar>x\<bar>;
            k = max (exponent m) (- 1022);
            s = round_even (m * pow2 (52 - k))
        in if k > 1023 \<or> (k = 1023 \<and> s = 2 ^ 53) then (if x > 0 then PosInf else NegInf)
           else Fin (sgn x * (of_int s * pow2 (k - 52))))"

definition f64_of_int :: "int \<Rightarrow> float64" where
  "f64_of_int i = f64_round (of_int i)"

fun f64_neg :: "float64 \<Rightarrow> float64" where
  "f64_neg (Fin a) = Fin (- a)"
| "f64_neg PosInf = NegInf"
| "f64_neg NegInf = PosInf"
| "f64_neg NaN = NaN"

fun f64_add :: "float64 \<Rightarrow> float64 \<Rightarrow> float64" where
  "f64_add (Fin a) (Fin b) = f64_round (a + b)"
| "f64_add NaN _ = NaN"
| "f64_add _ NaN = NaN"
| "f64_add PosInf NegInf = NaN"
| "f64_add NegInf PosInf = NaN"
| "f64_add PosInf _ = PosInf"
| "f64_add NegInf _ = NegInf"
| "f64_add _ PosInf = PosInf"
| "f64_add _ NegInf = NegInf"

definition f64_sub :: "float64 \<Rightarrow> float64 \<Rightarrow> float64" where
  "f64_sub a b = f64_add a (f64_neg b)"

definition f64_inf :: "bool \<Rightarrow> float64" where
  "f64_inf pos = (if pos then PosInf else NegInf)"

fun f64_mul :: "float64 \<Rightarrow> float64 \<Rightarrow> float64" where
  "f64_mul (Fin a) (Fin b) = f64_round (a * b)"
| "f64_mul NaN _ = NaN"
| "f64_mul _ NaN = NaN"
| "f64_mul (Fin a) PosInf = (if a = 0 then NaN else f64_inf (a > 0))"
| "f64_mul (Fin a) NegInf = (if a = 0 then NaN else f64_inf (a < 0))"
| "f64_mul PosInf (Fin b) = (if b = 0 then NaN else f64_inf (b > 0))"
| "f64_mul NegInf (Fin b) = (if b = 0 then NaN else f64_inf (b < 0))"
| "f64_mul PosInf PosInf = PosInf"
| "f64_mul NegInf NegInf = PosInf"
| "f64_mul _ _ = NegInf"

fun f64_div :: "float64 \<Rightarrow> float64 \<Rightarrow> float64" where
  "f64_div (Fin a) (Fin b) =
     (if b = 0 then (if a = 0 then NaN else f64_inf (a > 0)) else f64_round (a / b))"
| "f64_div NaN _ = NaN"
| "f64_div _ NaN = NaN"
| "f64_div (Fin a) _ = Fin 0"
| "f64_div PosInf (Fin b) = f64_inf (b \<ge> 0)"
| "f64_div NegInf (Fin b) = f64_inf (b < 0)"
| "f64_div _ _ = NaN"

fun f64_less :: "float64 \<Rightarrow> float64 \<Rightarrow> bool" where
  "f64_less (Fin a) (Fin b) = (a < b)"
| "f64_less NaN _ = False"
| "f64_less _ NaN = False"
| "f64_less NegInf NegInf = False"
| "f64_less NegInf _ = True"
| "f64_less _ NegInf = False"
| "f64_less PosInf _ = False"
| "f64_less _ PosInf = True"

definition f64_le :: "float64 \<Rightarrow> float64 \<Rightarrow> bool" where
  "f64_le a b \<longleftrightarrow> f64_less a b \<or> (a = b \<and> a \<noteq> NaN)"

text \<open>
  Conversion to \<open>int64\<close> truncates towards zero; out of range the result is
  implementation-specific in Go, the value here is the one of amd64.
\<close>

definition rat_trunc :: "rat \<Rightarrow> int" where
  "rat_trunc q = (if 0 \<le> q then \<lfloor>q\<rfloor> else \<lceil>q\<rceil>)"

fun f64_to_int64 :: "float64 \<Rightarrow> int" where
  "f64_to_int64 (Fin a) =
     (if - (2 ^ 63) \<le> rat_trunc a \<and> rat_trunc a < 2 ^ 63 then rat_trunc a else - (2 ^ 63))"
| "f64_to_int64 _ = - (2 ^ 63)"

end
