(* ===== verification/SimplexTypes.thy ===== *)
theory SimplexTypes
  imports Prelude Float64
begin

text \<open>
  The data of the Simplex consensus engine, \<open>service/validator/simplex/types.go\<close>: candidate
  and parent identifiers with their order, votes, certificates, validators and their total
  weight, session parameters, the leader schedule, and the errors of the package. The value
  types that Go compares with \<open>==\<close> and uses as map keys are datatypes with one constructor,
  the others are records.
\<close>

section \<open>Candidate identifiers\<close>

datatype candidateID = CandidateID (cid_Slot: u32) (cid_Hash: h256)

text \<open>Byte \<open>i\<close> of a \<open>[32]byte\<close> (big-endian reading of the word).\<close>

definition hash_byte :: "h256 \<Rightarrow> nat \<Rightarrow> u8" where
  "hash_byte h i = ucast (drop_bit (8 * (31 - i)) h)"

fun compare_bytes :: "h256 \<Rightarrow> h256 \<Rightarrow> nat list \<Rightarrow> int" where
  "compare_bytes a b [] = 0"
| "compare_bytes a b (i # is) =
     (if hash_byte a i \<noteq> hash_byte b i
      then (if hash_byte a i < hash_byte b i then - 1 else 1)
      else compare_bytes a b is)"

definition compare_id :: "candidateID \<Rightarrow> candidateID \<Rightarrow> int" where
  "compare_id i q =
     (if cid_Slot i \<noteq> cid_Slot q then (if cid_Slot i < cid_Slot q then - 1 else 1)
      else compare_bytes (cid_Hash i) (cid_Hash q) [0 ..< 32])"

datatype parentID = ParentID (Exists: bool) (pid_ID: candidateID)

definition Parent :: "candidateID \<Rightarrow> parentID" where
  "Parent i = ParentID True i"

definition Genesis :: parentID where
  "Genesis = ParentID False (CandidateID 0 0)"

definition compare_parent :: "parentID \<Rightarrow> parentID \<Rightarrow> int" where
  "compare_parent p q =
     (if Exists p \<noteq> Exists q then (if \<not> Exists p then - 1 else 1)
      else if \<not> Exists p then 0
      else compare_id (pid_ID p) (pid_ID q))"

section \<open>Votes and certificates\<close>

datatype voteKind = VoteNotarize | VoteFinalize | VoteSkip

datatype vote = Vote (v_Kind: voteKind) (v_ID: candidateID)

definition NotarizeVote :: "candidateID \<Rightarrow> vote" where
  "NotarizeVote i = Vote VoteNotarize i"

definition FinalizeVote :: "candidateID \<Rightarrow> vote" where
  "FinalizeVote i = Vote VoteFinalize i"

definition SkipVote :: "u32 \<Rightarrow> vote" where
  "SkipVote slot = Vote VoteSkip (CandidateID slot 0)"

definition vote_Slot :: "vote \<Rightarrow> u32" where
  "vote_Slot v = cid_Slot (v_ID v)"

record voteSignature =
  vs_ValidatorIndex :: u32
  vs_Signature :: bytes

record certificate =
  cert_Vote :: vote
  cert_Signatures :: "voteSignature list"

record validator =
  PublicKey :: bytes
  Weight :: u64

section \<open>Errors\<close>

text \<open>
  One constructor per error value of the package, grouped by where it is raised; an error of
  injected code (journal, store, signer, TL parser) is \<open>ErrExternal\<close>.
\<close>

datatype configErr =
    EEmptyValidatorSet
  | EInvalidPublicKey nat
  | EZeroWeight nat
  | EWeightOverflow
  | EInvalidParams string
  | EInvalidConfig string
  | ESignerProbe

datatype certErr =
    ENilCertificate
  | ESkipVoteHash
  | ETooManySignatures
  | EInvalidIndex u32
  | EDuplicateIndex u32
  | ENotEnoughWeight
  | EInvalidSignature u32
  | EBindingZero
  | ENotVerified
  | EOtherSession
  | EOtherRoster

datatype candidateErr =
    EShapeHashes
  | EEmptyWithoutParent
  | EParentNotBefore u32 u32
  | ELeaderOutOfRange u32 u32
  | EWrongLeader u32 u32
  | ECollatorKey
  | EDelegationSignature
  | EDelegatedCandidateSignature
  | ECandidateSignature
  | ESlotFinalized
  | ESlotTooFar
  | EDuplicateBroadcast

datatype wireErr = ETruncated string | EUnexpectedCtor u32 | ETrailing nat

datatype consensusErr =
    EDuplicateCertificate vote
  | EConflictingOwnVotes vote
  | EFinalizedAndSkipped u32
  | EFinalizedOther candidateID candidateID
  | ENoRunEnd u32
  | EPresentBelowHorizon u32 u32
  | ENoAvailableBase u32
  | ENilSlot u32

datatype simplexErr =
    ErrAlreadySaved
  | ErrStopped
  | ErrExternal string
  | EAlreadyStarted
  | EBootstrapAbsent
  | EConfig configErr
  | ECert certErr
  | ECandidate candidateErr
  | EWire wireErr
  | EConsensus consensusErr
  | ECorruptBootstrap vote simplexErr
  | EJournalBootstrap simplexErr
  | EJournalVote vote simplexErr
  | EJournalCertificate simplexErr
  | EJournalWindow simplexErr
  | EStoreFailed candidateID simplexErr
  | ESigning vote simplexErr

type_synonym 'a result = "simplexErr + 'a"

section \<open>Total weight\<close>

definition maxTotalWeight :: u64 where
  "maxTotalWeight = push_bit 61 1"

definition ed25519_PublicKeySize :: nat where
  "ed25519_PublicKeySize = 32"

definition ed25519_SignatureSize :: nat where
  "ed25519_SignatureSize = 64"

fun total_weight_from :: "nat \<Rightarrow> u64 \<Rightarrow> validator list \<Rightarrow> u64 result" where
  "total_weight_from i tot [] = Inr tot"
| "total_weight_from i tot (v # vs) =
     (if length (PublicKey v) \<noteq> ed25519_PublicKeySize then Inl (EConfig (EInvalidPublicKey i))
      else if Weight v = 0 then Inl (EConfig (EZeroWeight i))
      else if tot + Weight v > maxTotalWeight then Inl (EConfig EWeightOverflow)
      else total_weight_from (i + 1) (tot + Weight v) vs)"

definition totalValidatorWeight :: "validator list \<Rightarrow> u64 result" where
  "totalValidatorWeight validators = total_weight_from 0 0 validators"

section \<open>Session parameters and leader schedule\<close>

record params =
  TargetRate :: duration
  FirstBlockTimeout :: duration
  FirstBlockTimeoutMultiplier :: float64
  FirstBlockTimeoutCap :: duration
  CandidateResolveTimeout :: duration
  CandidateResolveTimeoutMultiplier :: float64
  CandidateResolveTimeoutCap :: duration
  CandidateResolveCooldown :: duration
  CandidateResolveRateLimit :: u32
  StandstillTimeout :: duration
  StandstillMaxEgressBytesPerS :: u32
  StandstillMinEgressBytesPerS :: u32
  MaxLeaderWindowDesync :: u32
  BadSignatureBanDuration :: duration
  MinBlockInterval :: duration
  NoEmptyBlocksOnErrTimeout :: duration
  CertificateGossipNeighbors :: u32

definition f64_finite :: "float64 \<Rightarrow> bool" where
  "f64_finite x \<longleftrightarrow> x \<noteq> NaN \<and> x \<noteq> PosInf \<and> x \<noteq> NegInf"

definition validate_params :: "params \<Rightarrow> unit result" where
  "validate_params p =
     (if TargetRate p \<le> 0 then Inl (EConfig (EInvalidParams ''target rate''))
      else if FirstBlockTimeout p < 0 then Inl (EConfig (EInvalidParams ''first block timeout''))
      else if f64_less (FirstBlockTimeoutMultiplier p) (Fin 0)
           \<or> \<not> f64_finite (FirstBlockTimeoutMultiplier p)
        then Inl (EConfig (EInvalidParams ''first block timeout multiplier''))
      else if f64_le (CandidateResolveTimeoutMultiplier p) (Fin 0)
           \<or> \<not> f64_finite (CandidateResolveTimeoutMultiplier p)
        then Inl (EConfig (EInvalidParams ''candidate resolve timeout multiplier''))
      else if StandstillTimeout p \<le> 0 then Inl (EConfig (EInvalidParams ''standstill timeout''))
      else if StandstillMaxEgressBytesPerS p = 0 \<and> StandstillMinEgressBytesPerS p = 0
        then Inl (EConfig (EInvalidParams ''standstill egress budget''))
      else Inr ())"

abbreviation Millisecond :: duration where "Millisecond \<equiv> 1000000"
abbreviation Second :: duration where "Second \<equiv> 1000000000"

definition DefaultParams :: params where
  "DefaultParams = \<lparr>
     TargetRate = 2400 * Millisecond,
     FirstBlockTimeout = 1000 * Millisecond,
     FirstBlockTimeoutMultiplier = f64_round (12 / 10),
     FirstBlockTimeoutCap = 100 * Second,
     CandidateResolveTimeout = 1000 * Millisecond,
     CandidateResolveTimeoutMultiplier = f64_round (12 / 10),
     CandidateResolveTimeoutCap = 10 * Second,
     CandidateResolveCooldown = 10 * Millisecond,
     CandidateResolveRateLimit = 10,
     StandstillTimeout = 10 * Second,
     StandstillMaxEgressBytesPerS = push_bit 17 50,
     StandstillMinEgressBytesPerS = push_bit 17 1,
     MaxLeaderWindowDesync = 250,
     BadSignatureBanDuration = 5 * Second,
     MinBlockInterval = 0,
     NoEmptyBlocksOnErrTimeout = 15 * Second,
     CertificateGossipNeighbors = 20\<rparr>"

definition RoundRobin_ExpectedLeader :: "u32 \<Rightarrow> u32 \<Rightarrow> u32 \<Rightarrow> u32" where
  "RoundRobin_ExpectedLeader slotsPerLeaderWindow validators slot =
     (slot div slotsPerLeaderWindow) mod validators"

record window =
  w_Base :: parentID
  w_ObservedSlot :: u32
  w_StartSlot :: u32
  w_EndSlot :: u32
  w_Leader :: u32
  w_LocalLeader :: bool
  w_ObservedAt :: gotime
  w_FirstBlockTimeout :: duration

datatype misbehaviorKind = MisbehaviorConflictingVotes | MisbehaviorConflictingCandidateAndCertificate

record misbehavior =
  m_Kind :: misbehaviorKind
  m_Proof1 :: bytes
  m_Proof2 :: bytes

section \<open>The order on identifiers\<close>

definition sign_cmp :: "int \<Rightarrow> int \<Rightarrow> int" where
  "sign_cmp a b = (if a < b then - 1 else if a = b then 0 else 1)"

declare upt_rec_numeral [simp del]

lemma compare_bytes_append:
  "compare_bytes a b (xs @ ys) =
     (if compare_bytes a b xs \<noteq> 0 then compare_bytes a b xs else compare_bytes a b ys)"
  by (induction xs) auto

lemma uint_hash_byte:
  assumes "i < 32"
  shows "uint (hash_byte h i) = (uint h div 2 ^ (8 * (31 - i))) mod 256"
  by (simp add: hash_byte_def unsigned_ucast_eq take_bit_eq_mod uint_drop_bit)

lemma sign_cmp_digit:
  assumes "0 \<le> a" "a < 256" "0 \<le> b" "b < (256::int)"
  shows "sign_cmp (256 * x + a) (256 * y + b) =
    (if sign_cmp x y \<noteq> 0 then sign_cmp x y else sign_cmp a b)"
  using assms by (auto simp: sign_cmp_def)

lemma compare_bytes_prefix:
  "n \<le> 32 \<Longrightarrow> compare_bytes a b [0 ..< n] =
     sign_cmp (uint a div 2 ^ (8 * (32 - n))) (uint b div 2 ^ (8 * (32 - n)))"
proof (induction n)
  case 0
  have "uint w div 2 ^ 256 = 0" for w :: h256
    using uint_lt2p [of w] by simp
  then show ?case by (simp add: sign_cmp_def)
next
  case (Suc n)
  then have n: "n < 32" by simp
  let ?p = "\<lambda>w::h256. uint w div 2 ^ (8 * (32 - n))"
  let ?q = "\<lambda>w::h256. uint w div 2 ^ (8 * (32 - Suc n))"
  have step: "?q w = 256 * ?p w + uint (hash_byte w n)" for w :: h256
  proof -
    have "8 * (32 - n) = 8 * (32 - Suc n) + 8" using n by simp
    then have "?p w = ?q w div 256" by (simp add: power_add zdiv_zmult2_eq)
    moreover have "uint (hash_byte w n) = ?q w mod 256" using n by (simp add: uint_hash_byte)
    ultimately show ?thesis by simp
  qed
  have digit: "compare_bytes a b [n] = sign_cmp (uint (hash_byte a n)) (uint (hash_byte b n))"
    by (simp add: sign_cmp_def word_less_iff_unsigned [where ?'a = int] word_uint_eq_iff)
  have "compare_bytes a b [0 ..< Suc n] =
      (if sign_cmp (?p a) (?p b) \<noteq> 0 then sign_cmp (?p a) (?p b)
       else sign_cmp (uint (hash_byte a n)) (uint (hash_byte b n)))"
    using Suc.IH n digit by (simp add: compare_bytes_append)
  also have "\<dots> = sign_cmp (256 * ?p a + uint (hash_byte a n)) (256 * ?p b + uint (hash_byte b n))"
    using uint_lt2p [of "hash_byte a n"] uint_lt2p [of "hash_byte b n"]
    by (subst sign_cmp_digit) simp_all
  also have "\<dots> = sign_cmp (?q a) (?q b)" by (simp only: step)
  finally show ?case .
qed

text \<open>The byte loop decides the numeric order of the hashes.\<close>

lemma compare_bytes_word:
  "compare_bytes a b [0 ..< 32] = (if a < b then - 1 else if a = b then 0 else 1)"
proof -
  have "compare_bytes a b [0 ..< 32] = sign_cmp (uint a) (uint b)"
    by (subst compare_bytes_prefix) simp_all
  then show ?thesis
    by (simp only: sign_cmp_def word_less_iff_unsigned [where ?'a = int] word_uint_eq_iff)
qed

lemma candidateID_eq_iff: "a = b \<longleftrightarrow> cid_Slot a = cid_Slot b \<and> cid_Hash a = cid_Hash b"
  by (cases a; cases b) simp

lemma compare_id_word:
  "compare_id a b =
     (if cid_Slot a < cid_Slot b \<or> cid_Slot a = cid_Slot b \<and> cid_Hash a < cid_Hash b then - 1
      else if a = b then 0 else 1)"
  unfolding compare_id_def compare_bytes_word by (auto simp: candidateID_eq_iff)

instantiation candidateID :: linorder
begin

definition less_eq_candidateID :: "candidateID \<Rightarrow> candidateID \<Rightarrow> bool" where
  "a \<le> b \<longleftrightarrow> compare_id a b \<le> 0"

definition less_candidateID :: "candidateID \<Rightarrow> candidateID \<Rightarrow> bool" where
  "a < b \<longleftrightarrow> compare_id a b < 0"

instance
  by standard
    (auto simp: less_eq_candidateID_def less_candidateID_def compare_id_word
      candidateID_eq_iff split: if_splits)

end

lemma compare_id_cases:
  "compare_id a b = (if a < b then - 1 else if a = b then 0 else 1)"
  by (auto simp: less_candidateID_def compare_id_word)

section \<open>The total weight\<close>

definition roster_weight :: "validator list \<Rightarrow> nat" where
  "roster_weight vs = sum_list (map (\<lambda>v. unat (Weight v)) vs)"

lemma add_no_wrap:
  assumes "a \<le> maxTotalWeight" and "unat b < 2 ^ 63"
  shows "unat (a + b) = unat a + unat b"
proof -
  have "unat a \<le> 2 ^ 61" using assms(1) by (simp add: word_le_nat_alt maxTotalWeight_def)
  with assms(2) have "unat a + unat b < 2 ^ 64" by simp
  then show ?thesis by (simp add: unat_word_ariths(1))
qed

lemma total_weight_from_sum:
  assumes "total_weight_from i a vs = Inr t" and "a \<le> maxTotalWeight"
    and "\<forall>v \<in> set vs. unat (Weight v) < 2 ^ 63"
  shows "unat t = unat a + roster_weight vs \<and> t \<le> maxTotalWeight
    \<and> (\<forall>v \<in> set vs. 0 < Weight v \<and> length (PublicKey v) = ed25519_PublicKeySize)"
  using assms
proof (induction i a vs rule: total_weight_from.induct)
  case (2 i a v vs)
  then have "a + Weight v \<le> maxTotalWeight" by (auto split: if_splits)
  moreover have "total_weight_from (i + 1) (a + Weight v) vs = Inr t"
    using "2.prems"(1) by (auto split: if_splits)
  ultimately show ?case
    using "2.IH" "2.prems" add_no_wrap [of a "Weight v"]
    by (auto simp: roster_weight_def word_gt_0 not_less split: if_splits)
qed (simp add: roster_weight_def)

lemma totalValidatorWeight_sum:
  assumes "totalValidatorWeight vs = Inr t" and "\<forall>v \<in> set vs. unat (Weight v) < 2 ^ 63"
  shows "unat t = roster_weight vs" and "unat t \<le> 2 ^ 61"
    and "\<forall>v \<in> set vs. 0 < Weight v \<and> length (PublicKey v) = ed25519_PublicKeySize"
  using total_weight_from_sum [of 0 0 vs t] assms
  by (auto simp: totalValidatorWeight_def word_le_nat_alt maxTotalWeight_def)


end
