(* ===== verification/SimplexWire.thy ===== *)
theory SimplexWire
  imports SimplexTypes
begin

text \<open>
  The wire layer, \<open>service/validator/simplex/tl.go\<close> and the candidate part of
  \<open>candidate.go\<close>: the hand-written vote codec, the domain/TL conversions, the signed
  payloads and the journal records. The reflection based TL serializer, the Ed25519
  primitive and SHA-256 are not part of the repository; they are the fields of \<open>ext\<close>.
  TL's \<open>int\<close> is a signed 32-bit field; the conversions \<open>int32(x)\<close> and \<open>uint32(x)\<close> keep
  the bit pattern, so both are \<open>u32\<close> here.
\<close>

section \<open>External code\<close>

record blockIDExt =
  bi_Workchain :: u32
  bi_Shard :: u64
  bi_SeqNo :: u32
  bi_RootHash :: bytes
  bi_FileHash :: bytes

datatype tlCandidateID = TLCandidateID (tc_Slot: u32) (tc_Hash: bytes)

datatype tlVote =
    TLNotarizeVote tlCandidateID
  | TLFinalizeVote tlCandidateID
  | TLSkipVote u32

datatype tlValue =
    TLUnsignedVote tlVote
  | TLBoxedCandidateID tlCandidateID
  | TLDataToSign bytes bytes
  | TLVoteSignatureSet "(u32 \<times> bytes) list"
  | TLCertificate tlVote "(u32 \<times> bytes) list"
  | TLDbKeyVote bytes
  | TLDbOurVote tlVote u64
  | TLDbKeyPoolState
  | TLDbPoolState u32
  | TLCandidateHashDataOrdinary blockIDExt bytes "tlCandidateID option"
  | TLCandidateHashDataEmpty blockIDExt tlCandidateID
  | TLDelegationToSign u32 bytes

text \<open>
  \<open>tl_AppendBytes\<close> is what \<open>tl.AppendBytes\<close> appends; \<open>tl_FromBytes\<close> returns the decoded
  field and the rest of the buffer; the \<open>tl_Parse\<close> fields are \<open>tl.Parse\<close> at the type the
  code parses into; \<open>tl_Hash_ed25519\<close> is \<open>tl.Hash\<close> of a boxed public key.
\<close>

record ext =
  ed25519_Verify :: "bytes \<Rightarrow> bytes \<Rightarrow> bytes \<Rightarrow> bool"
  sha256_Sum256 :: "bytes \<Rightarrow> h256"
  tl_CRC :: "string \<Rightarrow> u32"
  tl_AppendBytes :: "bytes \<Rightarrow> bytes"
  tl_FromBytes :: "bytes \<Rightarrow> (bytes \<times> bytes) result"
  tl_Serialize :: "tlValue \<Rightarrow> bytes"
  tl_ParseCertificate :: "bytes \<Rightarrow> (tlVote \<times> (u32 \<times> bytes) list \<times> bytes) result"
  tl_ParseDbOurVote :: "bytes \<Rightarrow> (tlVote \<times> u64 \<times> bytes) result"
  tl_ParseDbPoolState :: "bytes \<Rightarrow> (u32 \<times> bytes) result"
  tl_Hash_ed25519 :: "bytes \<Rightarrow> h256"
  signer_Sign :: "bytes \<Rightarrow> bytes result"
  GOMAXPROCS :: nat

section \<open>Byte order helpers\<close>

unbundle bit_operations_syntax

definition put_le32 :: "u32 \<Rightarrow> bytes" where
  "put_le32 w = [ucast w, ucast (drop_bit 8 w), ucast (drop_bit 16 w), ucast (drop_bit 24 w)]"

fun get_le32 :: "bytes \<Rightarrow> u32" where
  "get_le32 (a # b # c # d # rest) =
     ucast a OR push_bit 8 (ucast b) OR push_bit 16 (ucast c) OR push_bit 24 (ucast d)"
| "get_le32 _ = 0"

definition put_le64 :: "u64 \<Rightarrow> bytes" where
  "put_le64 w = put_le32 (ucast w) @ put_le32 (ucast (drop_bit 32 w))"

definition hash_bytes :: "h256 \<Rightarrow> bytes" where
  "hash_bytes h = map (hash_byte h) [0 ..< 32]"

definition bytes_hash :: "bytes \<Rightarrow> h256" where
  "bytes_hash bs = foldl (\<lambda>a b. a * 256 + ucast b) 0 bs"

section \<open>Domain and TL values\<close>

definition tlCandidateID_of :: "candidateID \<Rightarrow> tlCandidateID" where
  "tlCandidateID_of i = TLCandidateID (cid_Slot i) (hash_bytes (cid_Hash i))"

definition parentToTL :: "parentID \<Rightarrow> tlCandidateID option" where
  "parentToTL p = (if \<not> Exists p then None else Some (tlCandidateID_of (pid_ID p)))"

definition candidateIDFromTL :: "tlCandidateID \<Rightarrow> candidateID result" where
  "candidateIDFromTL t =
     (if length (tc_Hash t) \<noteq> 32 then Inl (EWire (ETruncated ''candidate hash''))
      else Inr (CandidateID (tc_Slot t) (bytes_hash (tc_Hash t))))"

definition voteToTL :: "vote \<Rightarrow> tlVote" where
  "voteToTL v =
     (case v_Kind v of
        VoteNotarize \<Rightarrow> TLNotarizeVote (tlCandidateID_of (v_ID v))
      | VoteFinalize \<Rightarrow> TLFinalizeVote (tlCandidateID_of (v_ID v))
      | VoteSkip \<Rightarrow> TLSkipVote (cid_Slot (v_ID v)))"

fun voteFromTL :: "tlVote \<Rightarrow> vote result" where
  "voteFromTL (TLNotarizeVote t) =
     (case candidateIDFromTL t of Inl err \<Rightarrow> Inl err | Inr i \<Rightarrow> Inr (NotarizeVote i))"
| "voteFromTL (TLFinalizeVote t) =
     (case candidateIDFromTL t of Inl err \<Rightarrow> Inl err | Inr i \<Rightarrow> Inr (FinalizeVote i))"
| "voteFromTL (TLSkipVote s) = Inr (SkipVote s)"

definition VoteBytes :: "ext \<Rightarrow> vote \<Rightarrow> bytes" where
  "VoteBytes E v = tl_Serialize E (TLUnsignedVote (voteToTL v))"

definition DataToSign :: "ext \<Rightarrow> h256 \<Rightarrow> bytes \<Rightarrow> bytes" where
  "DataToSign E sessionID payload = tl_Serialize E (TLDataToSign (hash_bytes sessionID) payload)"

section \<open>The vote codec\<close>

definition schemeNotarizeVote :: string where
  "schemeNotarizeVote =
     ''consensus.simplex.notarizeVote id:consensus.CandidateId = consensus.simplex.UnsignedVote''"

definition schemeFinalizeVote :: string where
  "schemeFinalizeVote =
     ''consensus.simplex.finalizeVote id:consensus.CandidateId = consensus.simplex.UnsignedVote''"

definition schemeSkipVote :: string where
  "schemeSkipVote = ''consensus.simplex.skipVote slot:int = consensus.simplex.UnsignedVote''"

definition schemeSignedVote :: string where
  "schemeSignedVote =
     ''consensus.simplex.vote vote:consensus.simplex.UnsignedVote signature:bytes = consensus.simplex.Vote''"

definition schemeCertificate :: string where
  "schemeCertificate =
     ''consensus.simplex.certificate vote:consensus.simplex.UnsignedVote signatures:consensus.simplex.VoteSignatureSet = consensus.simplex.Certificate''"

definition schemeCandidateID :: string where
  "schemeCandidateID = ''consensus.candidateId slot:int hash:int256 = consensus.CandidateId''"

definition schemeDbOurVote :: string where
  "schemeDbOurVote =
     ''consensus.simplex.db.ourVote vote:consensus.simplex.UnsignedVote seqno:long = consensus.simplex.db.Vote''"

definition schemeDbCert :: string where
  "schemeDbCert =
     ''consensus.simplex.db.cert cert:consensus.simplex.Certificate = consensus.simplex.db.Vote''"

abbreviation idSignedVote :: "ext \<Rightarrow> u32" where "idSignedVote E \<equiv> tl_CRC E schemeSignedVote"
abbreviation idCertificate :: "ext \<Rightarrow> u32" where "idCertificate E \<equiv> tl_CRC E schemeCertificate"
abbreviation idDbOurVote :: "ext \<Rightarrow> u32" where "idDbOurVote E \<equiv> tl_CRC E schemeDbOurVote"
abbreviation idDbCert :: "ext \<Rightarrow> u32" where "idDbCert E \<equiv> tl_CRC E schemeDbCert"
abbreviation idNotarizeVote :: "ext \<Rightarrow> u32" where "idNotarizeVote E \<equiv> tl_CRC E schemeNotarizeVote"
abbreviation idFinalizeVote :: "ext \<Rightarrow> u32" where "idFinalizeVote E \<equiv> tl_CRC E schemeFinalizeVote"
abbreviation idSkipVote :: "ext \<Rightarrow> u32" where "idSkipVote E \<equiv> tl_CRC E schemeSkipVote"
abbreviation idCandidateID :: "ext \<Rightarrow> u32" where "idCandidateID E \<equiv> tl_CRC E schemeCandidateID"

definition appendUnsignedVote :: "ext \<Rightarrow> bytes \<Rightarrow> vote \<Rightarrow> bytes" where
  "appendUnsignedVote E dst v =
     (case v_Kind v of
        VoteSkip \<Rightarrow> dst @ put_le32 (idSkipVote E) @ put_le32 (cid_Slot (v_ID v))
      | k \<Rightarrow> dst @ put_le32 (if k = VoteNotarize then idNotarizeVote E else idFinalizeVote E)
              @ put_le32 (idCandidateID E) @ put_le32 (cid_Slot (v_ID v))
              @ hash_bytes (cid_Hash (v_ID v)))"

record signedVote =
  sv_ValidatorIndex :: u32
  sv_Vote :: vote
  sv_Signature :: bytes

definition SignedVote_Serialize :: "ext \<Rightarrow> signedVote \<Rightarrow> bytes" where
  "SignedVote_Serialize E sv =
     appendUnsignedVote E (put_le32 (idSignedVote E)) (sv_Vote sv) @ tl_AppendBytes E (sv_Signature sv)"

definition parseUnsignedVote :: "ext \<Rightarrow> bytes \<Rightarrow> (vote \<times> bytes) result" where
  "parseUnsignedVote E data =
     (if length data < 4 then Inl (EWire (ETruncated ''unsigned vote''))
      else
        let ctor = get_le32 data;
            body = (\<lambda>kind.
              if length data < 4 + 4 + 4 + 32 then Inl (EWire (ETruncated ''candidate id''))
              else if get_le32 (drop 4 data) \<noteq> idCandidateID E
                then Inl (EWire (EUnexpectedCtor (get_le32 (drop 4 data))))
              else Inr (Vote kind (CandidateID (get_le32 (drop 8 data))
                          (bytes_hash (take 32 (drop 12 data)))), drop 44 data))
        in if ctor = idNotarizeVote E then body VoteNotarize
           else if ctor = idFinalizeVote E then body VoteFinalize
           else if ctor = idSkipVote E then
             (if length data < 8 then Inl (EWire (ETruncated ''skip vote''))
              else Inr (SkipVote (get_le32 (drop 4 data)), drop 8 data))
           else Inl (EWire (EUnexpectedCtor ctor)))"

definition parseSignedVote :: "ext \<Rightarrow> bytes \<Rightarrow> (vote \<times> bytes) result" where
  "parseSignedVote E data =
     (if length data < 4 then Inl (EWire (ETruncated ''vote''))
      else if get_le32 data \<noteq> idSignedVote E then Inl (EWire (EUnexpectedCtor (get_le32 data)))
      else case parseUnsignedVote E (drop 4 data) of
        Inl err \<Rightarrow> Inl err
      | Inr (v, rest) \<Rightarrow>
          (case tl_FromBytes E rest of
             Inl err \<Rightarrow> Inl err
           | Inr (sig, rest') \<Rightarrow>
               if length rest' \<noteq> 0 then Inl (EWire (ETrailing (length rest'))) else Inr (v, sig)))"

section \<open>Certificates and journal records\<close>

definition toTLSignatureSet :: "voteSignature list \<Rightarrow> (u32 \<times> bytes) list" where
  "toTLSignatureSet sigs = map (\<lambda>s. (vs_ValidatorIndex s, vs_Signature s)) sigs"

definition SignatureSetBytes :: "ext \<Rightarrow> certificate \<Rightarrow> bytes" where
  "SignatureSetBytes E c = tl_Serialize E (TLVoteSignatureSet (toTLSignatureSet (cert_Signatures c)))"

definition Certificate_Serialize :: "ext \<Rightarrow> certificate \<Rightarrow> bytes" where
  "Certificate_Serialize E c =
     tl_Serialize E (TLCertificate (voteToTL (cert_Vote c)) (toTLSignatureSet (cert_Signatures c)))"

definition parseCertificate :: "ext \<Rightarrow> bytes \<Rightarrow> nat \<Rightarrow> certificate result" where
  "parseCertificate E data maxSigs =
     (case tl_ParseCertificate E data of
        Inl err \<Rightarrow> Inl err
      | Inr (tv, sigs, rest) \<Rightarrow>
          if length rest \<noteq> 0 then Inl (EWire (ETrailing (length rest)))
          else case voteFromTL tv of
            Inl err \<Rightarrow> Inl err
          | Inr v \<Rightarrow>
              if length sigs > maxSigs then Inl (ECert ETooManySignatures)
              else Inr \<lparr>cert_Vote = v, cert_Signatures =
                     map (\<lambda>(who, sig). \<lparr>vs_ValidatorIndex = who, vs_Signature = sig\<rparr>) sigs\<rparr>)"

definition VoteRecordKey :: "ext \<Rightarrow> h256 \<Rightarrow> bytes" where
  "VoteRecordKey E h = tl_Serialize E (TLDbKeyVote (hash_bytes h))"

definition OurVoteRecordHash :: "ext \<Rightarrow> vote \<Rightarrow> h256" where
  "OurVoteRecordHash E v = sha256_Sum256 E (VoteBytes E v)"

definition CertificateRecordHash :: "ext \<Rightarrow> certificate \<Rightarrow> h256" where
  "CertificateRecordHash E c = sha256_Sum256 E (Certificate_Serialize E c)"

definition EncodeOurVoteRecord :: "ext \<Rightarrow> vote \<Rightarrow> u64 \<Rightarrow> bytes" where
  "EncodeOurVoteRecord E v seqno = tl_Serialize E (TLDbOurVote (voteToTL v) seqno)"

definition EncodeCertificateRecord :: "ext \<Rightarrow> certificate \<Rightarrow> bytes" where
  "EncodeCertificateRecord E c = put_le32 (idDbCert E) @ Certificate_Serialize E c"

datatype voteJournalRecord = JRVote vote u64 | JRCert certificate

definition DecodeVoteJournalRecord :: "ext \<Rightarrow> bytes \<Rightarrow> nat \<Rightarrow> voteJournalRecord result" where
  "DecodeVoteJournalRecord E data maxSigs =
     (if length data < 4 then Inl (EWire (ETruncated ''db.Vote record''))
      else if get_le32 data = idDbOurVote E then
        (case tl_ParseDbOurVote E data of
           Inl err \<Rightarrow> Inl err
         | Inr (tv, seqno, rest) \<Rightarrow>
             if length rest \<noteq> 0 then Inl (EWire (ETrailing (length rest)))
             else case voteFromTL tv of Inl err \<Rightarrow> Inl err | Inr v \<Rightarrow> Inr (JRVote v seqno))
      else if get_le32 data = idDbCert E then
        (case parseCertificate E (drop 4 data) maxSigs of
           Inl err \<Rightarrow> Inl err
         | Inr c \<Rightarrow> Inr (JRCert c))
      else Inl (EWire (EUnexpectedCtor (get_le32 data))))"

definition EncodePoolStateRecord :: "ext \<Rightarrow> u32 \<Rightarrow> bytes" where
  "EncodePoolStateRecord E w = tl_Serialize E (TLDbPoolState w)"

definition PoolStateKey :: "ext \<Rightarrow> bytes" where
  "PoolStateKey E = tl_Serialize E TLDbKeyPoolState"

definition DecodePoolStateRecord :: "ext \<Rightarrow> bytes \<Rightarrow> u32 result" where
  "DecodePoolStateRecord E data =
     (case tl_ParseDbPoolState E data of
        Inl err \<Rightarrow> Inl err
      | Inr (w, rest) \<Rightarrow> if length rest \<noteq> 0 then Inl (EWire (ETrailing (length rest))) else Inr w)"

section \<open>Candidates\<close>

record delegation =
  CollatorKey :: bytes
  dg_Signature :: bytes

record candidate =
  c_ID :: candidateID
  c_Parent :: parentID
  c_Leader :: u32
  c_Empty :: bool
  c_Block :: blockIDExt
  c_CollatedFileHash :: h256
  c_Signature :: bytes
  c_Delegation :: "delegation option"

definition HashDataBytes :: "ext \<Rightarrow> candidate \<Rightarrow> bytes" where
  "HashDataBytes E c =
     (if c_Empty c
      then tl_Serialize E (TLCandidateHashDataEmpty (c_Block c) (tlCandidateID_of (pid_ID (c_Parent c))))
      else tl_Serialize E (TLCandidateHashDataOrdinary (c_Block c)
             (hash_bytes (c_CollatedFileHash c)) (parentToTL (c_Parent c))))"

definition ComputeID :: "ext \<Rightarrow> candidate \<Rightarrow> u32 \<Rightarrow> candidateID" where
  "ComputeID E c slot = CandidateID slot (sha256_Sum256 E (HashDataBytes E c))"

definition SignCandidate :: "ext \<Rightarrow> h256 \<Rightarrow> candidateID \<Rightarrow> bytes result" where
  "SignCandidate E sessionID i =
     signer_Sign E (DataToSign E sessionID (tl_Serialize E (TLBoxedCandidateID (tlCandidateID_of i))))"

definition DelegationToSignBytes :: "ext \<Rightarrow> u32 \<Rightarrow> h256 \<Rightarrow> bytes" where
  "DelegationToSignBytes E windowStart collatorID =
     tl_Serialize E (TLDelegationToSign windowStart (hash_bytes collatorID))"

definition SignDelegation :: "ext \<Rightarrow> h256 \<Rightarrow> u32 \<Rightarrow> h256 \<Rightarrow> bytes result" where
  "SignDelegation E sessionID windowStart collatorID =
     signer_Sign E (DataToSign E sessionID (DelegationToSignBytes E windowStart collatorID))"

definition KeyNodeIDShort :: "ext \<Rightarrow> bytes \<Rightarrow> h256" where
  "KeyNodeIDShort E key = tl_Hash_ed25519 E key"

definition VerifyDelegationSignature ::
  "ext \<Rightarrow> bytes \<Rightarrow> h256 \<Rightarrow> u32 \<Rightarrow> h256 \<Rightarrow> bytes \<Rightarrow> bool" where
  "VerifyDelegationSignature E leaderKey sessionID windowStart collatorID signature \<longleftrightarrow>
     length signature = ed25519_SignatureSize
     \<and> ed25519_Verify E leaderKey
         (DataToSign E sessionID (DelegationToSignBytes E windowStart collatorID)) signature"

definition VerifyCandidateSignature :: "ext \<Rightarrow> bytes \<Rightarrow> h256 \<Rightarrow> candidateID \<Rightarrow> bytes \<Rightarrow> bool" where
  "VerifyCandidateSignature E key sessionID i sig \<longleftrightarrow>
     length sig = ed25519_SignatureSize
     \<and> ed25519_Verify E key
         (DataToSign E sessionID (tl_Serialize E (TLBoxedCandidateID (tlCandidateID_of i)))) sig"

definition verifyDelegatedCandidate ::
  "ext \<Rightarrow> candidate \<Rightarrow> delegation \<Rightarrow> bytes \<Rightarrow> h256 \<Rightarrow> u32 \<Rightarrow> unit result" where
  "verifyDelegatedCandidate E c d leaderKey sessionID slotsPerWindow =
     (if length (CollatorKey d) \<noteq> ed25519_PublicKeySize then Inl (ECandidate ECollatorKey)
      else
        let collatorID = KeyNodeIDShort E (CollatorKey d);
            slot = cid_Slot (c_ID c);
            windowStart = slot - slot mod slotsPerWindow
        in if \<not> VerifyDelegationSignature E leaderKey sessionID windowStart collatorID (dg_Signature d)
           then Inl (ECandidate EDelegationSignature)
           else if \<not> VerifyCandidateSignature E (CollatorKey d) sessionID (c_ID c) (c_Signature c)
           then Inl (ECandidate EDelegatedCandidateSignature)
           else Inr ())"

definition ValidateShape :: "candidate \<Rightarrow> unit result" where
  "ValidateShape c =
     (if length (bi_RootHash (c_Block c)) \<noteq> 32 \<or> length (bi_FileHash (c_Block c)) \<noteq> 32
      then Inl (ECandidate EShapeHashes)
      else if c_Empty c \<and> \<not> Exists (c_Parent c) then Inl (ECandidate EEmptyWithoutParent)
      else if Exists (c_Parent c) \<and> cid_Slot (pid_ID (c_Parent c)) \<ge> cid_Slot (c_ID c)
      then Inl (ECandidate (EParentNotBefore (cid_Slot (pid_ID (c_Parent c))) (cid_Slot (c_ID c))))
      else Inr ())"

section \<open>Round trips of the byte helpers\<close>

lemma length_put_le32 [simp]: "length (put_le32 w) = 4"
  by (simp add: put_le32_def)

lemma get_put_le32 [simp]: "get_le32 (put_le32 w @ rest) = w"
proof (rule bit_word_eqI)
  fix n assume "n < LENGTH(32)"
  then consider "n < 8" | "8 \<le> n" "n < 16" | "16 \<le> n" "n < 24" | "24 \<le> n" "n < 32"
    by (simp, linarith)
  then show "bit (get_le32 (put_le32 w @ rest)) n = bit w n"
    by cases (auto simp: put_le32_def bit_simps)
qed

lemma put_get_le32_cons: "put_le32 (get_le32 (a # b # c # d # rest)) = [a, b, c, d]"
proof -
  let ?w = "get_le32 (a # b # c # d # rest)"
  have "ucast ?w = a" by (rule bit_word_eqI) (auto simp: bit_simps dest: bit_imp_le_length)
  moreover have "ucast (drop_bit 8 ?w) = b" by (rule bit_word_eqI) (auto simp: bit_simps dest: bit_imp_le_length)
  moreover have "ucast (drop_bit 16 ?w) = c" by (rule bit_word_eqI) (auto simp: bit_simps dest: bit_imp_le_length)
  moreover have "ucast (drop_bit 24 ?w) = d" by (rule bit_word_eqI) (auto simp: bit_simps dest: bit_imp_le_length)
  ultimately show ?thesis unfolding put_le32_def by simp
qed

lemma put_get_le32: "4 \<le> length bs \<Longrightarrow> put_le32 (get_le32 bs) = take 4 bs"
proof -
  assume "4 \<le> length bs"
  then obtain a b1 where 1: "bs = a # b1" "3 \<le> length b1" by (cases bs) auto
  from 1(2) obtain b b2 where 2: "b1 = b # b2" "2 \<le> length b2" by (cases b1) auto
  from 2(2) obtain c b3 where 3: "b2 = c # b3" "1 \<le> length b3" by (cases b2) auto
  from 3(2) obtain d b4 where 4: "b3 = d # b4" by (cases b3) auto
  show ?thesis unfolding 1(1) 2(1) 3(1) 4 put_get_le32_cons by simp
qed

lemma length_hash_bytes [simp]: "length (hash_bytes h) = 32"
  by (simp add: hash_bytes_def)

lemma bytes_hash_snoc: "bytes_hash (bs @ [b]) = bytes_hash bs * 256 + ucast b"
  by (simp add: bytes_hash_def)

lemma uint_bytes_hash:
  "length bs \<le> 32 \<Longrightarrow> uint (bytes_hash bs) < 2 ^ (8 * length bs)
     \<and> uint (bytes_hash bs) = foldl (\<lambda>a b. a * 256 + uint b) 0 bs"
proof (induction bs rule: rev_induct)
  case (snoc b bs)
  then have IH: "uint (bytes_hash bs) < 2 ^ (8 * length bs)"
    "uint (bytes_hash bs) = foldl (\<lambda>a b. a * 256 + uint b) 0 bs" by simp_all
  have b: "uint b < 256" using uint_lt2p [of b] by simp
  have "uint (bytes_hash bs) * 256 + uint b < 2 ^ (8 * length (bs @ [b]))"
    using IH(1) b by (simp add: power_add)
  moreover have "(2::int) ^ (8 * length (bs @ [b])) \<le> 2 ^ 256"
    by (rule power_increasing) (use snoc.prems in simp_all)
  moreover have "uint (bytes_hash (bs @ [b])) = (uint (bytes_hash bs) * 256 + uint b) mod 2 ^ 256"
    by (simp add: bytes_hash_snoc uint_word_ariths unsigned_ucast_eq take_bit_eq_mod mod_simps)
  ultimately have "uint (bytes_hash (bs @ [b])) = uint (bytes_hash bs) * 256 + uint b"
    by simp
  then show ?case
    using \<open>uint (bytes_hash bs) * 256 + uint b < _\<close> IH(2) by simp
qed (simp add: bytes_hash_def)

lemma bytes_hash_prefix:
  "n \<le> 32 \<Longrightarrow> uint (bytes_hash (map (hash_byte h) [0 ..< n])) = uint h div 2 ^ (8 * (32 - n))"
proof (induction n)
  case 0
  show ?case using uint_lt2p [of h] by (simp add: bytes_hash_def)
next
  case (Suc n)
  have e: "8 * (32 - n) = 8 * (32 - Suc n) + 8" using Suc.prems by simp
  have "uint (bytes_hash (map (hash_byte h) [0 ..< Suc n])) =
      uint (bytes_hash (map (hash_byte h) [0 ..< n])) * 256 + uint (hash_byte h n)"
    using uint_bytes_hash [of "map (hash_byte h) [0 ..< Suc n]"]
      uint_bytes_hash [of "map (hash_byte h) [0 ..< n]"] Suc.prems by simp
  also have "\<dots> = (uint h div 2 ^ (8 * (32 - Suc n))) div 256 * 256
      + (uint h div 2 ^ (8 * (32 - Suc n))) mod 256"
    using Suc e by (simp add: uint_hash_byte power_add zdiv_zmult2_eq)
  finally show ?case by (simp only: div_mult_mod_eq)
qed

lemma bytes_hash_hash_bytes [simp]: "bytes_hash (hash_bytes h) = h"
  using bytes_hash_prefix [of 32 h] by (simp add: hash_bytes_def word_uint_eq_iff)

lemma uint_bytes_hash_div:
  assumes "length bs = 32" and "n \<le> 32"
  shows "uint (bytes_hash bs) div 2 ^ (8 * (32 - n)) = uint (bytes_hash (take n bs))"
  using assms(2)
proof (induction "32 - n" arbitrary: n)
  case 0
  then show ?case using assms(1) by simp
next
  case (Suc k)
  then have n: "n < 32" and k: "k = 32 - Suc n" by simp_all
  have "take (Suc n) bs = take n bs @ [bs ! n]" using n assms(1) by (simp add: take_Suc_conv_app_nth)
  then have "uint (bytes_hash (take (Suc n) bs)) = uint (bytes_hash (take n bs)) * 256 + uint (bs ! n)"
    using uint_bytes_hash [of "take (Suc n) bs"] uint_bytes_hash [of "take n bs"] n assms(1) by simp
  moreover have "uint (bs ! n) < 256" using uint_lt2p [of "bs ! n"] by simp
  moreover have "8 * (32 - n) = 8 * (32 - Suc n) + 8" using n by simp
  moreover have "uint (bytes_hash bs) div 2 ^ (8 * (32 - Suc n)) = uint (bytes_hash (take (Suc n) bs))"
    using Suc.hyps(1) [OF k] n by simp
  ultimately show ?case by (simp add: power_add zdiv_zmult2_eq)
qed

lemma hash_bytes_bytes_hash: "length bs = 32 \<Longrightarrow> hash_bytes (bytes_hash bs) = bs"
proof (rule nth_equalityI)
  assume len: "length bs = 32"
  fix i assume "i < length (hash_bytes (bytes_hash bs))"
  then have i: "i < 32" by simp
  have "take (Suc i) bs = take i bs @ [bs ! i]" using i len by (simp add: take_Suc_conv_app_nth)
  then have "uint (bytes_hash (take (Suc i) bs)) = uint (bytes_hash (take i bs)) * 256 + uint (bs ! i)"
    using uint_bytes_hash [of "take (Suc i) bs"] uint_bytes_hash [of "take i bs"] i len by simp
  moreover have "uint (bs ! i) < 256" using uint_lt2p [of "bs ! i"] by simp
  ultimately have "uint (hash_byte (bytes_hash bs) i) = uint (bs ! i)"
    using uint_bytes_hash_div [OF len, of "Suc i"] i by (simp add: uint_hash_byte)
  then show "hash_bytes (bytes_hash bs) ! i = bs ! i"
    using i by (simp add: hash_bytes_def word_uint_eq_iff)
qed simp

section \<open>The vote codec is a bijection on its image\<close>

text \<open>
  Documented behaviour of the TL library: the constructor ids of the four schemes the codec
  dispatches on differ, and a bytes field decodes to what was encoded, with the rest of the
  buffer untouched.
\<close>

definition vote_ids_distinct :: "ext \<Rightarrow> bool" where
  "vote_ids_distinct E \<longleftrightarrow> distinct [idNotarizeVote E, idFinalizeVote E, idSkipVote E]"

definition tl_bytes_roundtrip :: "ext \<Rightarrow> bool" where
  "tl_bytes_roundtrip E \<longleftrightarrow> (\<forall>b rest. tl_FromBytes E (tl_AppendBytes E b @ rest) = Inr (b, rest))"

definition vote_wf :: "vote \<Rightarrow> bool" where
  "vote_wf v \<longleftrightarrow> (v_Kind v = VoteSkip \<longrightarrow> cid_Hash (v_ID v) = 0)"

lemma vote_wf_ctor [simp]:
  "vote_wf (NotarizeVote i)" "vote_wf (FinalizeVote i)" "vote_wf (SkipVote s)"
  by (simp_all add: vote_wf_def NotarizeVote_def FinalizeVote_def SkipVote_def)

lemma voteFromTL_voteToTL: "vote_wf v \<Longrightarrow> voteFromTL (voteToTL v) = Inr v"
  by (cases v; cases "v_ID v"; cases "v_Kind v")
    (auto simp: voteToTL_def tlCandidateID_of_def candidateIDFromTL_def vote_wf_def
      NotarizeVote_def FinalizeVote_def SkipVote_def)

lemma voteFromTL_wf: "voteFromTL t = Inr v \<Longrightarrow> vote_wf v"
  by (cases t) (auto split: sum.splits)

lemma appendUnsignedVote_dst: "appendUnsignedVote E dst v = dst @ appendUnsignedVote E [] v"
  by (simp add: appendUnsignedVote_def split: voteKind.split)

lemma drop_le32 [simp]: "drop 4 (put_le32 w @ rest) = rest"
  by (simp add: drop_append)

lemma parse_append_vote:
  assumes "vote_ids_distinct E" and "vote_wf v"
  shows "parseUnsignedVote E (appendUnsignedVote E [] v @ rest) = Inr (v, rest)"
proof (cases v)
  case (Vote k i)
  obtain s h where i: "i = CandidateID s h" by (cases i)
  have drops: "drop 8 (put_le32 a @ put_le32 b @ xs) = xs"
    "drop 12 (put_le32 a @ put_le32 b @ put_le32 c @ xs) = xs"
    "drop 44 (put_le32 a @ put_le32 b @ put_le32 c @ hash_bytes h @ xs) = xs" for a b c :: u32 and xs
    by (simp_all add: drop_append)
  show ?thesis
    using assms
    by (cases k) (auto simp: Vote i appendUnsignedVote_def parseUnsignedVote_def Let_def drops
        vote_ids_distinct_def vote_wf_def SkipVote_def)
qed

text \<open>
  C9. The hand-written codec of \<open>consensus.simplex.vote\<close> round-trips: what \<open>Serialize\<close> writes
  for a vote and a signature, \<open>parseSignedVote\<close> reads back, for every vote kind.
\<close>

theorem parseSignedVote_Serialize:
  assumes "vote_ids_distinct E" and "tl_bytes_roundtrip E" and "vote_wf (sv_Vote sv)"
  shows "parseSignedVote E (SignedVote_Serialize E sv) = Inr (sv_Vote sv, sv_Signature sv)"
proof -
  have "tl_FromBytes E (tl_AppendBytes E (sv_Signature sv) @ []) = Inr (sv_Signature sv, [])"
    using assms(2) unfolding tl_bytes_roundtrip_def by blast
  then show ?thesis
    using parse_append_vote [OF assms(1,3)]
    by (simp add: SignedVote_Serialize_def parseSignedVote_def
        appendUnsignedVote_dst [of E "put_le32 (idSignedVote E)"])
qed

text \<open>
  Conversely the parser accepts only the canonical encoding: whatever it accepts is the
  encoding of the vote it returns, so no two byte strings decode to the same unsigned vote
  with the same rest.
\<close>

lemma join_word: "4 \<le> length data \<Longrightarrow> put_le32 (get_le32 data) @ drop 4 data = data"
  by (simp add: put_get_le32)

lemma join_id:
  assumes "44 \<le> length data"
  shows "put_le32 (get_le32 data) @ put_le32 (get_le32 (drop 4 data))
     @ put_le32 (get_le32 (drop 8 data)) @ hash_bytes (bytes_hash (take 32 (drop 12 data)))
     @ drop 44 data = data"
proof -
  have "put_le32 (get_le32 (drop 4 data)) @ drop 8 data = drop 4 data"
    using join_word [of "drop 4 data"] assms by simp
  moreover have "put_le32 (get_le32 (drop 8 data)) @ drop 12 data = drop 8 data"
    using join_word [of "drop 8 data"] assms by simp
  moreover have "hash_bytes (bytes_hash (take 32 (drop 12 data))) @ drop 44 data = drop 12 data"
    using assms hash_bytes_bytes_hash [of "take 32 (drop 12 data)"]
      append_take_drop_id [of 32 "drop 12 data"] by simp
  ultimately show ?thesis using join_word [of data] assms by simp
qed

lemma parse_vote_canonical:
  assumes "vote_ids_distinct E" and "parseUnsignedVote E data = Inr (v, rest)"
  shows "appendUnsignedVote E [] v @ rest = data \<and> vote_wf v"
proof (cases "get_le32 data = idSkipVote E")
  case True
  then have v: "8 \<le> length data" "v = SkipVote (get_le32 (drop 4 data))" "rest = drop 8 data"
    using assms by (auto simp: parseUnsignedVote_def Let_def vote_ids_distinct_def not_less split: if_splits)
  then have "put_le32 (idSkipVote E) @ put_le32 (get_le32 (drop 4 data)) @ drop 8 data = data"
    using True join_word [of data] join_word [of "drop 4 data"] by simp
  then show ?thesis by (simp add: v appendUnsignedVote_def SkipVote_def vote_wf_def)
next
  case False
  then obtain k where k: "k = VoteNotarize \<and> get_le32 data = idNotarizeVote E
      \<or> k = VoteFinalize \<and> get_le32 data = idFinalizeVote E"
    and v: "44 \<le> length data" "get_le32 (drop 4 data) = idCandidateID E"
      "v = Vote k (CandidateID (get_le32 (drop 8 data)) (bytes_hash (take 32 (drop 12 data))))"
      "rest = drop 44 data"
    using assms by (auto simp: parseUnsignedVote_def Let_def vote_ids_distinct_def not_less split: if_splits)
  have "appendUnsignedVote E [] v @ rest = put_le32 (get_le32 data) @ put_le32 (get_le32 (drop 4 data))
     @ put_le32 (get_le32 (drop 8 data)) @ hash_bytes (bytes_hash (take 32 (drop 12 data))) @ drop 44 data"
    using k v(2-) by (auto simp: appendUnsignedVote_def)
  also have "\<dots> = data" by (rule join_id [OF v(1)])
  finally show ?thesis using k by (auto simp: v(3) vote_wf_def)
qed

section \<open>A concrete environment\<close>

text \<open>
  An instance of the external code on which the hypotheses of the development hold; the
  witnesses evaluate the model on it. Signatures are the key followed by a prefix of the
  message.
\<close>

fun demo_vote :: "tlVote \<Rightarrow> bytes" where
  "demo_vote (TLNotarizeVote t) = 1 # put_le32 (tc_Slot t) @ tc_Hash t"
| "demo_vote (TLFinalizeVote t) = 2 # put_le32 (tc_Slot t) @ tc_Hash t"
| "demo_vote (TLSkipVote s) = 3 # put_le32 s"

fun demo_serialize :: "tlValue \<Rightarrow> bytes" where
  "demo_serialize (TLUnsignedVote v) = demo_vote v"
| "demo_serialize (TLDataToSign s p) = p"
| "demo_serialize (TLCertificate v sigs) =
     4 # demo_vote v @ concat (map (\<lambda>(i, b). put_le32 i @ b) sigs)"
| "demo_serialize (TLBoxedCandidateID t) = 5 # put_le32 (tc_Slot t) @ tc_Hash t"
| "demo_serialize (TLCandidateHashDataOrdinary b h p) =
     6 # put_le32 (bi_SeqNo b) @ (case p of None \<Rightarrow> [] | Some t \<Rightarrow> put_le32 (tc_Slot t)) @ bi_RootHash b"
| "demo_serialize (TLCandidateHashDataEmpty b t) = 7 # put_le32 (bi_SeqNo b) @ put_le32 (tc_Slot t)"
| "demo_serialize _ = []"

definition demo_sig :: "bytes \<Rightarrow> bytes \<Rightarrow> bytes" where
  "demo_sig key msg = take 64 (key @ msg @ replicate 64 0)"

fun demo_append :: "bytes \<Rightarrow> bytes" where
  "demo_append [] = [0]"
| "demo_append (b # bs) = 1 # b # demo_append bs"

fun demo_from :: "bytes \<Rightarrow> (bytes \<times> bytes) result" where
  "demo_from (x # rest) =
     (if x = 0 then Inr ([], rest)
      else case rest of
        [] \<Rightarrow> Inl (ErrExternal ''bytes'')
      | b # rest' \<Rightarrow>
          (case demo_from rest' of Inl err \<Rightarrow> Inl err | Inr (bs, r) \<Rightarrow> Inr (b # bs, r)))"
| "demo_from [] = Inl (ErrExternal ''bytes'')"

definition demo_crc :: "string \<Rightarrow> u32" where
  "demo_crc s =
     (if s = schemeNotarizeVote then 1 else if s = schemeFinalizeVote then 2
      else if s = schemeSkipVote then 3 else if s = schemeSignedVote then 4
      else if s = schemeCertificate then 5 else if s = schemeCandidateID then 6 else 7)"

definition demo_ext :: "bytes \<Rightarrow> ext" where
  "demo_ext key = \<lparr>
     ed25519_Verify = \<lambda>pk msg sig. sig = demo_sig pk msg,
     sha256_Sum256 = \<lambda>b. ucast (get_le32 b) + 1,
     tl_CRC = demo_crc,
     tl_AppendBytes = demo_append,
     tl_FromBytes = demo_from,
     tl_Serialize = demo_serialize,
     tl_ParseCertificate = \<lambda>b. Inl (ErrExternal ''certificate''),
     tl_ParseDbOurVote = \<lambda>b. Inl (ErrExternal ''ourVote''),
     tl_ParseDbPoolState = \<lambda>b. Inl (ErrExternal ''poolState''),
     tl_Hash_ed25519 = \<lambda>b. ucast (get_le32 b) + 1,
     signer_Sign = \<lambda>msg. Inr (demo_sig key msg),
     GOMAXPROCS = 4\<rparr>"

lemma demo_from_append: "demo_from (demo_append bs @ rest) = Inr (bs, rest)"
  by (induction bs) simp_all

lemma demo_bytes_roundtrip: "tl_bytes_roundtrip (demo_ext key)"
  by (simp add: tl_bytes_roundtrip_def demo_ext_def demo_from_append)

lemma demo_ids_distinct: "vote_ids_distinct (demo_ext key)"
  by (simp add: vote_ids_distinct_def demo_ext_def demo_crc_def schemeNotarizeVote_def
      schemeFinalizeVote_def schemeSkipVote_def)

theorem parseSignedVote_Serialize_witness:
  "parseSignedVote (demo_ext (replicate 32 7))
     (SignedVote_Serialize (demo_ext (replicate 32 7))
        \<lparr>sv_ValidatorIndex = 1, sv_Vote = NotarizeVote (CandidateID 9 77), sv_Signature = [1, 2, 3]\<rparr>)
   = Inr (NotarizeVote (CandidateID 9 77), [1, 2, 3])"
  using parseSignedVote_Serialize [OF demo_ids_distinct demo_bytes_roundtrip, of
      "\<lparr>sv_ValidatorIndex = 1, sv_Vote = NotarizeVote (CandidateID 9 77), sv_Signature = [1, 2, 3]\<rparr>"]
  by simp

end
