(* ===== verification/FanOut.thy ===== *)
theory FanOut
  imports Prelude
begin

text \<open>
  The concurrent fan-out of signature checks, \<open>verifyFanOut\<close> in
  \<open>service/validator/simplex/certificate_verify.go\<close>. The goroutines are modelled one by
  one, with a step per atomic operation (\<open>next.Add\<close>, \<open>bound.Load\<close>, the call of \<open>body\<close>,
  \<open>bound.CompareAndSwap\<close>), interleaved arbitrarily. The sequential function
  \<open>verifyFanOut\<close> is what every complete schedule returns; the engine theories use it.
\<close>

section \<open>The goroutines\<close>

datatype worker =
    Idle
  | Took nat
  | Calling nat
  | Lowering nat
  | Swapping nat nat
  | Returned

text \<open>
  \<open>fo_log\<close> records the indices \<open>body\<close> has been called for, in call order.
\<close>

record fanOut =
  fo_next :: nat
  fo_bound :: nat
  fo_workers :: "worker list"
  fo_log :: "nat list"

definition fan_init :: "nat \<Rightarrow> nat \<Rightarrow> fanOut" where
  "fan_init procs n =
     \<lparr>fo_next = 0, fo_bound = n, fo_workers = replicate (min procs n) Idle, fo_log = []\<rparr>"

definition set_worker :: "nat \<Rightarrow> worker \<Rightarrow> fanOut \<Rightarrow> fanOut" where
  "set_worker k w s = s\<lparr>fo_workers := (fo_workers s)[k := w]\<rparr>"

definition worker_step :: "nat \<Rightarrow> (nat \<Rightarrow> nat) \<Rightarrow> nat \<Rightarrow> fanOut \<Rightarrow> fanOut" where
  "worker_step n body k s =
     (case fo_workers s ! k of
        Idle \<Rightarrow> set_worker k (Took (fo_next s)) (s\<lparr>fo_next := fo_next s + 1\<rparr>)
      | Took i \<Rightarrow>
          if i \<ge> n \<or> i \<ge> fo_bound s then set_worker k Returned s else set_worker k (Calling i) s
      | Calling i \<Rightarrow> (set_worker k (Lowering (body i)) s)\<lparr>fo_log := fo_log s @ [i]\<rparr>
      | Lowering b \<Rightarrow>
          if b \<ge> fo_bound s then set_worker k Idle s else set_worker k (Swapping b (fo_bound s)) s
      | Swapping b current \<Rightarrow>
          if fo_bound s = current then set_worker k Idle (s\<lparr>fo_bound := b\<rparr>)
          else set_worker k (Lowering b) s
      | Returned \<Rightarrow> s)"

inductive fan_step :: "nat \<Rightarrow> (nat \<Rightarrow> nat) \<Rightarrow> fanOut \<Rightarrow> fanOut \<Rightarrow> bool" for n body where
  fan_step: "k < length (fo_workers s) \<Longrightarrow> fo_workers s ! k \<noteq> Returned
    \<Longrightarrow> fan_step n body s (worker_step n body k s)"

definition fan_done :: "fanOut \<Rightarrow> bool" where
  "fan_done s \<longleftrightarrow> (\<forall>w \<in> set (fo_workers s). w = Returned)"

text \<open>The sequential reading: the bound of the lowest index that lowers it, \<open>n\<close> if none does.\<close>

definition verifyFanOut :: "nat \<Rightarrow> (nat \<Rightarrow> nat) \<Rightarrow> nat" where
  "verifyFanOut n body =
     (case find (\<lambda>i. body i < n) [0 ..< n] of Some i \<Rightarrow> body i | None \<Rightarrow> n)"

section \<open>Every schedule terminates\<close>

definition worker_rank :: "nat \<Rightarrow> nat \<Rightarrow> worker \<Rightarrow> nat" where
  "worker_rank n bound w =
     (case w of
        Returned \<Rightarrow> 0
      | Took i \<Rightarrow> (if i < n then 11 else 5)
      | Idle \<Rightarrow> 6
      | Swapping b current \<Rightarrow> (if current = bound then 7 else 9)
      | Lowering b \<Rightarrow> 8
      | Calling i \<Rightarrow> 10)"

definition fan_measure :: "nat \<Rightarrow> (fanOut \<times> fanOut) set" where
  "fan_measure n =
     inv_image (less_than <*lex*> less_than <*lex*> less_than)
       (\<lambda>s. (fo_bound s, n - fo_next s, sum_list (map (worker_rank n (fo_bound s)) (fo_workers s))))"

definition swaps_lower :: "fanOut \<Rightarrow> bool" where
  "swaps_lower s \<longleftrightarrow> (\<forall>b c. Swapping b c \<in> set (fo_workers s) \<longrightarrow> b < c)"

lemma sum_update_less:
  fixes g :: "'a \<Rightarrow> nat"
  assumes "k < length ws" and "g w < g (ws ! k)"
  shows "sum_list (map g (ws[k := w])) < sum_list (map g ws)"
  using assms
proof (induction ws arbitrary: k)
  case (Cons a ws)
  then show ?case by (cases k) auto
qed simp

lemma set_update_cases: "x \<in> set (xs[k := y]) \<Longrightarrow> x = y \<or> x \<in> set xs"
  using set_update_subset_insert by fast

lemma swaps_lower_step:
  assumes "swaps_lower s" and "k < length (fo_workers s)"
  shows "swaps_lower (worker_step n body k s)"
  using assms
  by (auto simp: swaps_lower_def worker_step_def set_worker_def not_le dest!: set_update_cases
      split: worker.split)

lemma worker_step_decreases:
  assumes "swaps_lower s" and "k < length (fo_workers s)" and "fo_workers s ! k \<noteq> Returned"
  shows "(worker_step n body k s, s) \<in> fan_measure n"
proof (cases "fo_workers s ! k")
  case Idle
  show ?thesis
  proof (cases "fo_next s < n")
    case True
    then have "n - Suc (fo_next s) < n - fo_next s" by simp
    then show ?thesis using Idle by (simp add: fan_measure_def worker_step_def set_worker_def)
  next
    case False
    then have "n - Suc (fo_next s) = n - fo_next s" by simp
    moreover have "worker_rank n (fo_bound s) (Took (fo_next s)) < worker_rank n (fo_bound s) Idle"
      using False by (simp add: worker_rank_def)
    ultimately show ?thesis
      using sum_update_less [OF assms(2), of "worker_rank n (fo_bound s)"] Idle
      by (simp add: fan_measure_def worker_step_def set_worker_def)
  qed
next
  case (Swapping b c)
  then have "b < c" using assms(1,2) nth_mem [OF assms(2)] by (auto simp: swaps_lower_def)
  show ?thesis
  proof (cases "fo_bound s = c")
    case True
    then show ?thesis
      using Swapping \<open>b < c\<close> by (simp add: fan_measure_def worker_step_def set_worker_def)
  next
    case False
    then show ?thesis
      using sum_update_less [OF assms(2), of "worker_rank n (fo_bound s)"] Swapping
      by (simp add: fan_measure_def worker_step_def set_worker_def worker_rank_def)
  qed
next
  case (Took i)
  then show ?thesis
    using sum_update_less [OF assms(2), of "worker_rank n (fo_bound s)"]
    by (auto simp: fan_measure_def worker_step_def set_worker_def worker_rank_def not_le)
qed (use sum_update_less [OF assms(2), of "worker_rank n (fo_bound s)"] assms(3) in
    \<open>auto simp: fan_measure_def worker_step_def set_worker_def worker_rank_def\<close>)

lemma wf_fan_measure: "wf (fan_measure n)"
  unfolding fan_measure_def by (intro wf_inv_image wf_lex_prod wf_less_than)

section \<open>What a complete schedule returns\<close>

definition holds :: "worker \<Rightarrow> nat option" where
  "holds w = (case w of Took i \<Rightarrow> Some i | Calling i \<Rightarrow> Some i | _ \<Rightarrow> None)"

definition works_on :: "(nat \<Rightarrow> nat) \<Rightarrow> nat \<Rightarrow> worker \<Rightarrow> bool" where
  "works_on body i w \<longleftrightarrow>
     holds w = Some i \<or> w = Lowering (body i) \<or> (\<exists>c. w = Swapping (body i) c)"

text \<open>The contract of \<open>body\<close> in both callers: it keeps the bound at \<open>n\<close> or lowers it to its index.\<close>

definition body_ok :: "nat \<Rightarrow> (nat \<Rightarrow> nat) \<Rightarrow> bool" where
  "body_ok n body \<longleftrightarrow> (\<forall>i < n. body i = n \<or> body i = i)"

definition fan_inv :: "nat \<Rightarrow> (nat \<Rightarrow> nat) \<Rightarrow> fanOut \<Rightarrow> bool" where
  "fan_inv n body s \<longleftrightarrow>
     fo_bound s \<le> n \<and> (fo_bound s < n \<longrightarrow> body (fo_bound s) = fo_bound s)
     \<and> (\<forall>w \<in> set (fo_workers s). \<forall>b. (w = Lowering b \<or> (\<exists>c. w = Swapping b c)) \<longrightarrow>
          b = n \<or> b < n \<and> body b = b)
     \<and> (\<forall>w \<in> set (fo_workers s). \<forall>i. w = Calling i \<longrightarrow> i < n)
     \<and> (\<forall>i. Took i \<in> set (fo_workers s) \<longrightarrow> i < fo_next s)
     \<and> (Returned \<in> set (fo_workers s) \<longrightarrow> fo_bound s < fo_next s)
     \<and> (\<forall>i < fo_next s. i < n \<longrightarrow>
          fo_bound s \<le> body i \<or> (\<exists>w \<in> set (fo_workers s). works_on body i w))"

definition held1 :: "worker \<Rightarrow> nat list" where
  "held1 w = (case holds w of None \<Rightarrow> [] | Some i \<Rightarrow> [i])"

definition held :: "worker list \<Rightarrow> nat list" where
  "held ws = concat (map held1 ws)"

definition calls_inv :: "nat \<Rightarrow> fanOut \<Rightarrow> bool" where
  "calls_inv n s \<longleftrightarrow>
     distinct (fo_log s @ held (fo_workers s))
     \<and> (\<forall>i \<in> set (fo_log s) \<union> set (held (fo_workers s)). i < fo_next s)
     \<and> (\<forall>i \<in> set (fo_log s). i < n)
     \<and> (\<forall>i < fo_next s. i < fo_bound s \<longrightarrow> i \<in> set (fo_log s) \<union> set (held (fo_workers s)))
     \<and> fo_bound s \<le> n
     \<and> (\<forall>i. Calling i \<in> set (fo_workers s) \<longrightarrow> i < n)"

lemma mem_update: "w \<in> set ws \<Longrightarrow> w \<noteq> ws ! k \<Longrightarrow> w \<in> set (ws[k := x])"
  by (metis in_set_conv_nth length_list_update nth_list_update_neq)

lemma covered_update:
  assumes "\<exists>w \<in> set ws. P w" and "P (ws ! k) \<longrightarrow> Q \<or> P x" and "k < length ws"
  shows "Q \<or> (\<exists>w \<in> set (ws[k := x]). P w)"
  using assms mem_update [of _ ws k x] set_update_memI [OF assms(3), of x] by metis

lemma fan_inv_init: "fan_inv n body (fan_init procs n)"
  by (auto simp: fan_inv_def fan_init_def)

lemma fan_cover_step:
  assumes inv: "fan_inv n body s" and ok: "body_ok n body" and low: "swaps_lower s"
    and k: "k < length (fo_workers s)" and i: "i < fo_next (worker_step n body k s)" "i < n"
  shows "fo_bound (worker_step n body k s) \<le> body i
    \<or> (\<exists>w \<in> set (fo_workers (worker_step n body k s)). works_on body i w)"
proof -
  let ?ws = "fo_workers s"
  have body: "i \<le> body i" using ok i(2) by (fastforce simp: body_ok_def)
  have cover: "fo_bound s \<le> body i \<or> (\<exists>w \<in> set ?ws. works_on body i w)" if "i < fo_next s"
    using inv that i(2) by (auto simp: fan_inv_def)
  have upd: "fo_bound s \<le> body i \<or> (\<exists>w \<in> set (?ws[k := x]). works_on body i w)"
    if "works_on body i (?ws ! k) \<longrightarrow> fo_bound s \<le> body i \<or> works_on body i x" "i < fo_next s" for x
    using cover [OF that(2)] covered_update [of ?ws "works_on body i" k "fo_bound s \<le> body i" x] that(1) k
    by blast
  show ?thesis
  proof (cases "?ws ! k")
    case Idle
    show ?thesis
    proof (cases "i = fo_next s")
      case True
      then have "Took i \<in> set (?ws[k := Took (fo_next s)])" using set_update_memI [OF k] by simp
      moreover have "works_on body i (Took i)" by (simp add: works_on_def holds_def)
      ultimately show ?thesis using Idle by (auto simp: worker_step_def set_worker_def)
    next
      case False
      then have "i < fo_next s" using Idle i(1) by (simp add: worker_step_def set_worker_def)
      then show ?thesis
        using upd [of "Took (fo_next s)"] Idle
        by (simp add: worker_step_def set_worker_def works_on_def holds_def)
    qed
  next
    case (Swapping b c)
    then have b: "b < c" using low nth_mem [OF k] by (auto simp: swaps_lower_def)
    have i': "i < fo_next s" using Swapping i(1) by (simp add: worker_step_def set_worker_def split: if_splits)
    show ?thesis
    proof (cases "fo_bound s = c")
      case True
      have "b \<le> body i \<or> (\<exists>w \<in> set (?ws[k := Idle]). works_on body i w)"
      proof (cases "fo_bound s \<le> body i")
        case False
        with cover [OF i'] have "\<exists>w \<in> set ?ws. works_on body i w" by simp
        then show ?thesis
          by (rule covered_update) (use Swapping k in \<open>auto simp: works_on_def holds_def\<close>)
      qed (use True b in simp)
      then show ?thesis using Swapping True by (simp add: worker_step_def set_worker_def)
    next
      case False
      then show ?thesis
        using upd [of "Lowering b"] i' Swapping
        by (simp add: worker_step_def set_worker_def works_on_def holds_def)
    qed
  next
    case (Took j)
    then have i': "i < fo_next s" using i(1) by (simp add: worker_step_def set_worker_def split: if_splits)
    have "works_on body i (Took j) \<longrightarrow> fo_bound s \<le> body i" if "n \<le> j \<or> fo_bound s \<le> j"
      using that i(2) body by (auto simp: works_on_def holds_def)
    then show ?thesis
      using upd [of Returned] upd [of "Calling j"] i' Took
      by (auto simp: worker_step_def set_worker_def works_on_def holds_def)
  next
    case (Calling j)
    then show ?thesis
      using upd [of "Lowering (body j)"] i
      by (auto simp: worker_step_def set_worker_def works_on_def holds_def)
  next
    case (Lowering b)
    then show ?thesis
      using upd [of Idle] upd [of "Swapping b (fo_bound s)"] i
      by (auto simp: worker_step_def set_worker_def works_on_def holds_def split: if_splits)
  qed (use cover i in \<open>simp add: worker_step_def\<close>)
qed

lemma fan_inv_step:
  assumes inv: "fan_inv n body s" and ok: "body_ok n body" and low: "swaps_lower s"
    and k: "k < length (fo_workers s)"
  shows "fan_inv n body (worker_step n body k s)"
proof -
  have wk: "fo_workers s ! k \<in> set (fo_workers s)" using k by simp
  have call: "body i = n \<or> body i < n \<and> body (body i) = body i"
    if "fo_workers s ! k = Calling i" for i
    using inv ok wk that unfolding fan_inv_def body_ok_def by metis
  have swap: "b = n \<or> b < n \<and> body b = b"
    if "fo_workers s ! k = Lowering b \<or> (\<exists>c. fo_workers s ! k = Swapping b c)" for b
    using inv wk that unfolding fan_inv_def by metis
  have lower: "b < c" if "fo_workers s ! k = Swapping b c" for b c
    using low wk that by (auto simp: swaps_lower_def)
  have inv1: "fo_bound s \<le> n" "fo_bound s < n \<longrightarrow> body (fo_bound s) = fo_bound s"
    "\<And>w b. w \<in> set (fo_workers s) \<Longrightarrow> w = Lowering b \<or> (\<exists>c. w = Swapping b c) \<Longrightarrow>
        b = n \<or> b < n \<and> body b = b"
    "\<And>i. Calling i \<in> set (fo_workers s) \<Longrightarrow> i < n"
    "\<And>i. Took i \<in> set (fo_workers s) \<Longrightarrow> i < fo_next s"
    "Returned \<in> set (fo_workers s) \<longrightarrow> fo_bound s < fo_next s"
    using inv unfolding fan_inv_def by blast+
  let ?t = "worker_step n body k s"
  have a: "fo_bound ?t \<le> n" "fo_bound ?t < n \<longrightarrow> body (fo_bound ?t) = fo_bound ?t"
    using inv1(1,2) swap by (auto simp: worker_step_def set_worker_def split: worker.split)
  have b: "b = n \<or> b < n \<and> body b = b"
    if "w \<in> set (fo_workers ?t)" "w = Lowering b \<or> (\<exists>c. w = Swapping b c)" for w b
    using that inv1(3) [of w b] call swap
    by (auto simp: worker_step_def set_worker_def dest!: set_update_cases split: worker.splits if_splits)
  have c: "i < n" if "Calling i \<in> set (fo_workers ?t)" for i
    using that inv1(4)
    by (auto simp: worker_step_def set_worker_def dest!: set_update_cases split: worker.splits if_splits)
  have took: "i < fo_next s" if "fo_workers s ! k = Took i" for i
    using inv1(5) [of i] wk that by simp
  have d: "i < fo_next ?t" if "Took i \<in> set (fo_workers ?t)" for i
    using that inv1(5) [of i]
    by (auto simp: worker_step_def set_worker_def dest!: set_update_cases split: worker.splits if_splits)
  have e: "fo_bound ?t < fo_next ?t" if "Returned \<in> set (fo_workers ?t)"
    using that inv1(1,6) lower took
    by (fastforce simp: worker_step_def set_worker_def dest!: set_update_cases split: worker.splits if_splits)
  show ?thesis
    unfolding fan_inv_def using a b c d e fan_cover_step [OF inv ok low k] by blast
qed

lemma swaps_lower_init: "swaps_lower (fan_init procs n)"
  by (auto simp: swaps_lower_def fan_init_def)

lemma fan_reach:
  assumes "(fan_step n body)\<^sup>*\<^sup>* (fan_init procs n) s" and "body_ok n body"
  shows "fan_inv n body s \<and> swaps_lower s \<and> length (fo_workers s) = min procs n"
  using assms(1)
proof (induction rule: rtranclp_induct)
  case base
  show ?case by (simp add: fan_inv_init swaps_lower_init) (simp add: fan_init_def)
next
  case (step s t)
  from step.hyps(2) obtain k where k: "k < length (fo_workers s)" and t: "t = worker_step n body k s"
    by (auto elim: fan_step.cases)
  have "length (fo_workers t) = length (fo_workers s)"
    by (simp add: t worker_step_def set_worker_def split: worker.split)
  then show ?case
    using step.IH fan_inv_step [of n body s k] swaps_lower_step [of s k] assms(2) k by (simp add: t)
qed

lemma fan_bound_result:
  assumes "fan_inv n body s" and "body_ok n body" and "fan_done s" and "fo_workers s \<noteq> []"
  shows "fo_bound s = verifyFanOut n body"
proof -
  have ret: "Returned \<in> set (fo_workers s)"
    using assms(3,4) by (cases "fo_workers s") (auto simp: fan_done_def)
  have none: "\<not> works_on body i w" if "w \<in> set (fo_workers s)" for i w
    using that assms(3) by (auto simp: fan_done_def works_on_def holds_def)
  have next': "fo_bound s < fo_next s" and le: "fo_bound s \<le> n"
    and self: "fo_bound s < n \<longrightarrow> body (fo_bound s) = fo_bound s"
    using assms(1) ret by (auto simp: fan_inv_def)
  have low: "fo_bound s \<le> body i" if "i < fo_next s" "i < n" for i
    using assms(1) none that unfolding fan_inv_def by blast
  have below: "body i = n" if "i < fo_bound s" for i
  proof -
    have "i < n" "i < fo_next s" using that le next' by simp_all
    then show ?thesis using low [of i] assms(2) that by (auto simp: body_ok_def)
  qed
  show ?thesis
  proof (cases "fo_bound s < n")
    case True
    have "find (\<lambda>i. body i < n) [0 ..< n] = Some (fo_bound s)"
      unfolding find_Some_iff using True self below by (intro exI [of _ "fo_bound s"]) auto
    then show ?thesis using True self by (simp add: verifyFanOut_def)
  next
    case False
    then have "find (\<lambda>i. body i < n) [0 ..< n] = None"
      using below le by (auto simp: find_None_iff)
    then show ?thesis using False le by (simp add: verifyFanOut_def)
  qed
qed

text \<open>
  C5. Whatever the interleaving of the goroutines, a completed fan-out returns the lowest
  index whose check fails (or \<open>n\<close>): the concurrent certificate check names the same
  signature as the sequential one.
\<close>

theorem verifyFanOut_schedules:
  assumes "body_ok n body" and "0 < procs"
    and "(fan_step n body)\<^sup>*\<^sup>* (fan_init procs n) s" and "fan_done s"
  shows "fo_bound s = verifyFanOut n body"
proof (cases n)
  case 0
  then have "fan_inv 0 body s" using fan_reach [OF assms(3,1)] by simp
  then show ?thesis using 0 by (simp add: fan_inv_def verifyFanOut_def)
next
  case (Suc m)
  then have "fo_workers s \<noteq> []" using fan_reach [OF assms(3,1)] assms(2) by auto
  then show ?thesis using fan_bound_result fan_reach [OF assms(3,1)] assms by blast
qed

lemma holds_cases [simp]:
  "holds Idle = None" "holds (Took i) = Some i" "holds (Calling i) = Some i"
  "holds (Lowering b) = None" "holds (Swapping b c) = None" "holds Returned = None"
  by (simp_all add: holds_def)

lemma held_simps [simp]:
  "held [] = []" "held (A @ B) = held A @ held B"
  "held (w # B) = held1 w @ held B"
  "held1 Idle = []" "held1 (Took i) = [i]" "held1 (Calling i) = [i]"
  "held1 (Lowering b) = []" "held1 (Swapping b c) = []" "held1 Returned = []"
  by (simp_all add: held_def held1_def)

lemma calls_inv_step:
  assumes inv: "calls_inv n s" and low: "swaps_lower s" and k: "k < length (fo_workers s)"
  shows "calls_inv n (worker_step n body k s)"
proof -
  obtain A w B where ws: "fo_workers s = A @ w # B" "length A = k"
    using id_take_nth_drop [OF k] k by (metis length_take min.absorb4)
  then have at: "fo_workers s ! k = w" and upd: "\<And>x. (fo_workers s)[k := x] = A @ x # B"
    by (auto simp: list_update_append nth_append)
  have sw: "b < c" if "w = Swapping b c" for b c
    using low ws(1) that by (auto simp: swaps_lower_def)
  have d: "distinct (fo_log s @ held A @ held1 w @ held B)"
    and lt: "\<forall>i \<in> set (fo_log s) \<union> set (held A @ held1 w @ held B). i < fo_next s"
    and n: "\<forall>i \<in> set (fo_log s). i < n"
    and cov: "\<forall>i < fo_next s. i < fo_bound s \<longrightarrow> i \<in> set (fo_log s) \<union> set (held A @ held1 w @ held B)"
    and bd: "fo_bound s \<le> n" and call: "\<forall>i. Calling i \<in> set (A @ w # B) \<longrightarrow> i < n"
    using inv by (simp_all add: calls_inv_def ws(1))
  have step: "calls_inv n (s\<lparr>fo_next := nx, fo_bound := bd', fo_workers := A @ x # B, fo_log := l\<rparr>)"
    if "distinct (l @ held A @ held1 x @ held B)" "fo_next s \<le> nx" "bd' \<le> fo_bound s"
      and new: "\<forall>i \<in> set l \<union> set (held1 x). i \<in> set (fo_log s) \<or> i \<in> set (held1 w) \<or> fo_next s \<le> i \<and> i < nx"
      and "\<forall>i \<in> set l. i \<in> set (fo_log s) \<or> i < n" "\<forall>i. x = Calling i \<longrightarrow> i < n"
      "\<forall>i < nx. i < bd' \<longrightarrow> i \<in> set (fo_log s) \<union> set (held1 w) \<or> fo_next s \<le> i \<longrightarrow> i \<in> set l \<union> set (held1 x)"
    for nx bd' x l
  proof -
    have "i < nx" if "i \<in> set l \<union> set (held A @ held1 x @ held B)" for i
    proof (cases "i < fo_next s")
      case False
      then have "i \<in> set l \<union> set (held1 x)" using that lt by auto
      then show ?thesis using new lt False by auto
    qed (use \<open>fo_next s \<le> nx\<close> in simp)
    moreover have "\<forall>i < nx. i < bd' \<longrightarrow> i \<in> set l \<union> set (held A @ held1 x @ held B)"
      using that(3) that(7) cov by (metis UnCI UnE less_le_trans not_le set_append)
    ultimately show ?thesis
      using that(1,3,5,6) n bd call by (auto simp: calls_inv_def)
  qed
  show ?thesis
  proof (cases w)
    case Idle
    then show ?thesis
      using step [of "fo_log s" "Took (fo_next s)" "Suc (fo_next s)" "fo_bound s"] d lt at
      by (simp add: worker_step_def set_worker_def upd) (fastforce simp: less_Suc_eq)
  next
    case (Took j)
    then show ?thesis
      using step [of "fo_log s" Returned "fo_next s" "fo_bound s"]
        step [of "fo_log s" "Calling j" "fo_next s" "fo_bound s"] d bd at
      by (auto simp: worker_step_def set_worker_def upd not_le)
  next
    case (Calling j)
    then show ?thesis
      using step [of "fo_log s @ [j]" "Lowering (body j)" "fo_next s" "fo_bound s"] d call at
      by (auto simp: worker_step_def set_worker_def upd)
  next
    case (Lowering b)
    then show ?thesis
      using step [of "fo_log s" Idle "fo_next s" "fo_bound s"]
        step [of "fo_log s" "Swapping b (fo_bound s)" "fo_next s" "fo_bound s"] d at
      by (auto simp: worker_step_def set_worker_def upd)
  next
    case (Swapping b c)
    then show ?thesis
      using step [of "fo_log s" Idle "fo_next s" b] sw [of b c]
        step [of "fo_log s" "Lowering b" "fo_next s" "fo_bound s"] d at
      by (auto simp: worker_step_def set_worker_def upd)
  qed (use inv at in \<open>simp add: worker_step_def\<close>)
qed

lemma calls_inv_init: "calls_inv n (fan_init procs n)"
proof -
  have "held (replicate m Idle) = []" for m by (induction m) simp_all
  then show ?thesis by (auto simp: calls_inv_def fan_init_def)
qed

text \<open>
  C6. Every schedule of the fan-out calls the check for an index at most once, and when the
  fan-out is complete every index below the returned bound has been checked. With a body that
  never lowers the bound (the batch of independent votes) that is every index.
\<close>

theorem verifyFanOut_calls:
  assumes "body_ok n body" and "0 < procs"
    and "(fan_step n body)\<^sup>*\<^sup>* (fan_init procs n) s" and "fan_done s"
  shows "distinct (fo_log s) \<and> {..< fo_bound s} \<subseteq> set (fo_log s) \<and> set (fo_log s) \<subseteq> {..< n}"
proof -
  have "calls_inv n s"
    using assms(3)
  proof (induction rule: rtranclp_induct)
    case (step s t)
    from step.hyps(2) obtain k where "k < length (fo_workers s)" "t = worker_step n body k s"
      by (auto elim: fan_step.cases)
    then show ?case using step.IH fan_reach [OF step.hyps(1) assms(1)] calls_inv_step by simp
  qed (rule calls_inv_init)
  moreover have "fo_bound s \<le> fo_next s"
  proof (cases n)
    case 0
    then show ?thesis using \<open>calls_inv n s\<close> by (simp add: calls_inv_def)
  next
    case (Suc m)
    then have "fo_workers s \<noteq> []" using fan_reach [OF assms(3,1)] assms(2) by auto
    then have "Returned \<in> set (fo_workers s)"
      using assms(4) by (cases "fo_workers s") (auto simp: fan_done_def)
    then show ?thesis using fan_reach [OF assms(3,1)] by (simp add: fan_inv_def)
  qed
  moreover have "held (fo_workers s) = []"
  proof -
    have "\<forall>w \<in> set ws. w = Returned \<Longrightarrow> held ws = []" for ws by (induction ws) simp_all
    then show ?thesis using assms(4) by (simp add: fan_done_def)
  qed
  ultimately show ?thesis by (auto simp: calls_inv_def)
qed

text \<open>
  C7. The fan-out always completes: from every reachable state that is not complete some
  goroutine can move, and no schedule is infinite (the compare-and-swap retries included).
\<close>

theorem verifyFanOut_terminates:
  "(\<nexists>run. run 0 = fan_init procs n \<and> (\<forall>i. fan_step n body (run i) (run (Suc i))))
   \<and> (\<forall>s. fan_done s \<or> (\<exists>t. fan_step n body s t))"
proof
  show "\<nexists>run. run 0 = fan_init procs n \<and> (\<forall>i. fan_step n body (run i) (run (Suc i)))"
  proof
    assume "\<exists>run. run 0 = fan_init procs n \<and> (\<forall>i. fan_step n body (run i) (run (Suc i)))"
    then obtain run where init: "run 0 = fan_init procs n"
      and step: "\<And>i. fan_step n body (run i) (run (Suc i))" by blast
    have low: "swaps_lower (run i)" for i
    proof (induction i)
      case (Suc i)
      then show ?case using step [of i] swaps_lower_step by (auto elim!: fan_step.cases)
    qed (simp add: init swaps_lower_init)
    have "(run (Suc i), run i) \<in> fan_measure n" for i
      using step [of i] low [of i] worker_step_decreases by (auto elim!: fan_step.cases)
    then show False using wf_fan_measure [of n] by (auto simp: wf_iff_no_infinite_down_chain)
  qed
  show "\<forall>s. fan_done s \<or> (\<exists>t. fan_step n body s t)"
    unfolding fan_done_def by (metis fan_step.intros in_set_conv_nth)
qed

section \<open>Witnesses\<close>

text \<open>Two goroutines over three indices, the second of which fails.\<close>

definition demo_body :: "nat \<Rightarrow> nat" where
  "demo_body i = (if i = 1 then 1 else 3)"

definition demo_schedule :: "nat list" where
  "demo_schedule = [0, 1, 1, 0, 1, 1, 1, 0, 0, 0, 0, 1, 1]"

fun run_schedule :: "nat \<Rightarrow> (nat \<Rightarrow> nat) \<Rightarrow> nat list \<Rightarrow> fanOut \<Rightarrow> fanOut option" where
  "run_schedule n body [] s = Some s"
| "run_schedule n body (k # ks) s =
     (if k < length (fo_workers s) \<and> fo_workers s ! k \<noteq> Returned
      then run_schedule n body ks (worker_step n body k s) else None)"

lemma run_schedule_reach: "run_schedule n body ks s = Some t \<Longrightarrow> (fan_step n body)\<^sup>*\<^sup>* s t"
proof (induction n body ks s rule: run_schedule.induct)
  case (2 n body k ks s)
  then show ?case
    by (auto split: if_splits intro: converse_rtranclp_into_rtranclp fan_step.intros)
qed simp

definition demo_final :: fanOut where
  "demo_final = \<lparr>fo_next = 4, fo_bound = 1, fo_workers = [Returned, Returned], fo_log = [1, 0]\<rparr>"

lemma demo_run: "run_schedule 3 demo_body demo_schedule (fan_init 2 3) = Some demo_final"
  by code_simp

lemma demo_body_ok: "body_ok 3 demo_body"
  by (auto simp: body_ok_def demo_body_def)

lemma demo_final_done: "fan_done demo_final"
  by (simp add: fan_done_def demo_final_def)

theorem verifyFanOut_schedules_witness: "fo_bound demo_final = verifyFanOut 3 demo_body"
  by (rule verifyFanOut_schedules [OF demo_body_ok _ run_schedule_reach [OF demo_run] demo_final_done]) simp

theorem verifyFanOut_calls_witness:
  "distinct (fo_log demo_final) \<and> {..< fo_bound demo_final} \<subseteq> set (fo_log demo_final)
   \<and> set (fo_log demo_final) \<subseteq> {..< 3}"
  by (rule verifyFanOut_calls [OF demo_body_ok _ run_schedule_reach [OF demo_run] demo_final_done]) simp

end
