(* ===== verification/Certificates.thy ===== *)
theory Certificates
  imports SimplexWire FanOut
begin

text \<open>
  Certificates and their verification, \<open>service/validator/simplex/certificate_verify.go\<close>,
  and the verified journal bootstrap, \<open>journal.go\<close>. Deep copies are the identity on the
  values of the model; \<open>cloneCertificate\<close> and \<open>certificatesEqual\<close> are still written out
  field by field as the code does, and shown to be the identity and equality.
\<close>

section \<open>Roster digest and binding\<close>

fun roster_bytes_from :: "nat \<Rightarrow> validator list \<Rightarrow> bytes result" where
  "roster_bytes_from i [] = Inr []"
| "roster_bytes_from i (v # vs) =
     (if length (PublicKey v) \<noteq> ed25519_PublicKeySize then Inl (EConfig (EInvalidPublicKey i))
      else case roster_bytes_from (i + 1) vs of
        Inl err \<Rightarrow> Inl err
      | Inr rest \<Rightarrow> Inr (PublicKey v @ put_le64 (Weight v) @ rest))"

text \<open>What \<open>RosterDigest\<close> writes into the hash.\<close>

definition roster_preimage :: "validator list \<Rightarrow> bytes result" where
  "roster_preimage validators =
     (if validators = [] then Inl (EConfig EEmptyValidatorSet)
      else case roster_bytes_from 0 validators of
        Inl err \<Rightarrow> Inl err
      | Inr b \<Rightarrow> Inr (put_le64 (of_nat (length validators)) @ b))"

definition RosterDigest :: "ext \<Rightarrow> validator list \<Rightarrow> h256 result" where
  "RosterDigest E validators =
     (case roster_preimage validators of
        Inl err \<Rightarrow> Inl err
      | Inr b \<Rightarrow> Inr (sha256_Sum256 E b))"

datatype certificateBinding = CertificateBinding (cb_sessionID: h256) (cb_roster: h256)

definition NewCertificateBinding :: "ext \<Rightarrow> h256 \<Rightarrow> validator list \<Rightarrow> certificateBinding result" where
  "NewCertificateBinding E sessionID validators =
     (case RosterDigest E validators of
        Inl err \<Rightarrow> Inl err
      | Inr roster \<Rightarrow> Inr (CertificateBinding sessionID roster))"

definition binding_IsZero :: "certificateBinding \<Rightarrow> bool" where
  "binding_IsZero b \<longleftrightarrow> b = CertificateBinding 0 0"

text \<open>
  \<open>VerifiedCertificate\<close>: a sealed certificate, or the zero value (no certificate pointer).
\<close>

record sealed =
  s_cert :: certificate
  s_binding :: certificateBinding

type_synonym verifiedCertificate = "sealed option"

definition binding_Check :: "certificateBinding \<Rightarrow> verifiedCertificate \<Rightarrow> unit result" where
  "binding_Check b c =
     (if binding_IsZero b then Inl (ECert EBindingZero)
      else case c of
        None \<Rightarrow> Inl (ECert ENotVerified)
      | Some s \<Rightarrow>
          if cb_sessionID (s_binding s) \<noteq> cb_sessionID b then Inl (ECert EOtherSession)
          else if cb_roster (s_binding s) \<noteq> cb_roster b then Inl (ECert EOtherRoster)
          else Inr ())"

definition cloneCertificate :: "certificate \<Rightarrow> certificate" where
  "cloneCertificate cert =
     \<lparr>cert_Vote = cert_Vote cert,
      cert_Signatures =
        map (\<lambda>s. \<lparr>vs_ValidatorIndex = vs_ValidatorIndex s, vs_Signature = vs_Signature s\<rparr>)
          (cert_Signatures cert)\<rparr>"

definition sealCertificate :: "certificate \<Rightarrow> certificateBinding \<Rightarrow> sealed" where
  "sealCertificate cert binding = \<lparr>s_cert = cloneCertificate cert, s_binding = binding\<rparr>"

definition certificatesEqual :: "certificate option \<Rightarrow> certificate option \<Rightarrow> bool" where
  "certificatesEqual l r =
     (case (l, r) of
        (Some a, Some b) \<Rightarrow>
          cert_Vote a = cert_Vote b \<and> length (cert_Signatures a) = length (cert_Signatures b)
          \<and> list_all2 (\<lambda>x y. vs_ValidatorIndex x = vs_ValidatorIndex y \<and> vs_Signature x = vs_Signature y)
              (cert_Signatures a) (cert_Signatures b)
      | (None, None) \<Rightarrow> True
      | _ \<Rightarrow> False)"

section \<open>Verification\<close>

record certificateVerifier =
  cv_binding :: certificateBinding
  cv_validators :: "validator list"
  cv_threshold :: u64

definition cloneValidators :: "validator list \<Rightarrow> validator list" where
  "cloneValidators validators =
     map (\<lambda>v. \<lparr>PublicKey = PublicKey v, Weight = Weight v\<rparr>) validators"

definition NewCertificateVerifier :: "ext \<Rightarrow> h256 \<Rightarrow> validator list \<Rightarrow> certificateVerifier result" where
  "NewCertificateVerifier E sessionID validators =
     (let owned = cloneValidators validators
      in if length owned = 0 then Inl (EConfig EEmptyValidatorSet)
         else case totalValidatorWeight owned of
           Inl err \<Rightarrow> Inl err
         | Inr totalWeight \<Rightarrow>
             (case NewCertificateBinding E sessionID owned of
                Inl err \<Rightarrow> Inl err
              | Inr binding \<Rightarrow>
                  Inr \<lparr>cv_binding = binding, cv_validators = owned,
                       cv_threshold = totalWeight * 2 div 3 + 1\<rparr>))"

definition validateCertificateVote :: "vote \<Rightarrow> unit result" where
  "validateCertificateVote v =
     (case v_Kind v of
        VoteSkip \<Rightarrow> if cid_Hash (v_ID v) \<noteq> 0 then Inl (ECert ESkipVoteHash) else Inr ()
      | _ \<Rightarrow> Inr ())"

definition parallelVerifyMinSigs :: nat where
  "parallelVerifyMinSigs = 8"

fun scan_signatures :: "validator list \<Rightarrow> bool list \<Rightarrow> u64 \<Rightarrow> voteSignature list \<Rightarrow> u64 result" where
  "scan_signatures validators voted weight [] = Inr weight"
| "scan_signatures validators voted weight (s # ss) =
     (let i = unat (vs_ValidatorIndex s)
      in if i \<ge> length validators then Inl (ECert (EInvalidIndex (vs_ValidatorIndex s)))
         else if voted ! i then Inl (ECert (EDuplicateIndex (vs_ValidatorIndex s)))
         else scan_signatures validators (voted[i := True]) (weight + Weight (validators ! i)) ss)"

definition verify_signature :: "ext \<Rightarrow> validator list \<Rightarrow> bytes \<Rightarrow> voteSignature \<Rightarrow> bool" where
  "verify_signature E validators payload s \<longleftrightarrow>
     length (vs_Signature s) = ed25519_SignatureSize
     \<and> ed25519_Verify E (PublicKey (validators ! unat (vs_ValidatorIndex s))) payload (vs_Signature s)"

fun verify_each :: "(voteSignature \<Rightarrow> bool) \<Rightarrow> voteSignature list \<Rightarrow> unit result" where
  "verify_each ok [] = Inr ()"
| "verify_each ok (s # ss) =
     (if \<not> ok s then Inl (ECert (EInvalidSignature (vs_ValidatorIndex s))) else verify_each ok ss)"

definition verifyCertificatePayload ::
  "ext \<Rightarrow> validator list \<Rightarrow> u64 \<Rightarrow> bytes \<Rightarrow> certificate \<Rightarrow> unit result" where
  "verifyCertificatePayload E validators threshold payload cert =
     (let sigs = cert_Signatures cert; n = length sigs; ok = verify_signature E validators payload
      in if n > length validators then Inl (ECert ETooManySignatures)
         else case scan_signatures validators (replicate (length validators) False) 0 sigs of
           Inl err \<Rightarrow> Inl err
         | Inr weight \<Rightarrow>
             if weight < threshold then Inl (ECert ENotEnoughWeight)
             else if n < parallelVerifyMinSigs \<or> GOMAXPROCS E < 2 then verify_each ok sigs
             else
               let bad = verifyFanOut n (\<lambda>i. if ok (sigs ! i) then n else i)
               in if bad < n then Inl (ECert (EInvalidSignature (vs_ValidatorIndex (sigs ! bad))))
                  else Inr ())"

definition verifier_Verify ::
  "ext \<Rightarrow> certificateVerifier \<Rightarrow> certificate option \<Rightarrow> verifiedCertificate result" where
  "verifier_Verify E v cert =
     (case cert of
        None \<Rightarrow> Inl (ECert ENilCertificate)
      | Some c \<Rightarrow>
          (case validateCertificateVote (cert_Vote c) of
             Inl err \<Rightarrow> Inl err
           | Inr _ \<Rightarrow>
               if length (cert_Signatures c) > length (cv_validators v)
               then Inl (ECert ETooManySignatures)
               else
                 let s = sealCertificate c (cv_binding v); owned = s_cert s
                 in case validateCertificateVote (cert_Vote owned) of
                      Inl err \<Rightarrow> Inl err
                    | Inr _ \<Rightarrow>
                        let payload = DataToSign E (cb_sessionID (cv_binding v))
                                        (VoteBytes E (cert_Vote owned))
                        in case verifyCertificatePayload E (cv_validators v) (cv_threshold v) payload owned of
                             Inl err \<Rightarrow> Inl err
                           | Inr _ \<Rightarrow> Inr (Some s)))"

definition VerifyCertificate ::
  "ext \<Rightarrow> h256 \<Rightarrow> validator list \<Rightarrow> certificate option \<Rightarrow> verifiedCertificate result" where
  "VerifyCertificate E sessionID validators cert =
     (case NewCertificateVerifier E sessionID validators of
        Inl err \<Rightarrow> Inl err
      | Inr v \<Rightarrow> verifier_Verify E v cert)"

section \<open>The verified bootstrap\<close>

record bootstrapState =
  bs_FirstNonAnnouncedWindow :: u32
  bs_OurVotes :: "vote list"
  bs_Certificates :: "certificate option list"

record validatedBootstrap =
  vb_state :: "bootstrapState option"
  vb_binding :: certificateBinding
  vb_sealed :: "sealed list"

definition cloneBootstrapState :: "bootstrapState \<Rightarrow> bootstrapState" where
  "cloneBootstrapState st =
     \<lparr>bs_FirstNonAnnouncedWindow = bs_FirstNonAnnouncedWindow st,
      bs_OurVotes = bs_OurVotes st,
      bs_Certificates = map (map_option cloneCertificate) (bs_Certificates st)\<rparr>"

fun verify_journal :: "ext \<Rightarrow> certificateVerifier \<Rightarrow> certificate option list \<Rightarrow> sealed list result" where
  "verify_journal E v [] = Inr []"
| "verify_journal E v (None # cs) = Inl (ECert ENilCertificate)"
| "verify_journal E v (Some c # cs) =
     (case verifier_Verify E v (Some c) of
        Inl err \<Rightarrow> Inl (ECorruptBootstrap (cert_Vote c) err)
      | Inr vc \<Rightarrow>
          (case verify_journal E v cs of
             Inl err \<Rightarrow> Inl err
           | Inr rest \<Rightarrow> Inr ((case vc of Some s \<Rightarrow> [s] | None \<Rightarrow> []) @ rest)))"

definition ValidateBootstrap ::
  "ext \<Rightarrow> h256 \<Rightarrow> validator list \<Rightarrow> bootstrapState option \<Rightarrow> validatedBootstrap result" where
  "ValidateBootstrap E sessionID validators state =
     (case state of
        None \<Rightarrow> Inl EBootstrapAbsent
      | Some st \<Rightarrow>
          if length (bs_Certificates st) = 0 then
            (let owned = cloneBootstrapState st
             in case NewCertificateBinding E sessionID validators of
                  Inl err \<Rightarrow> Inr \<lparr>vb_state = Some owned, vb_binding = CertificateBinding 0 0, vb_sealed = []\<rparr>
                | Inr binding \<Rightarrow> Inr \<lparr>vb_state = Some owned, vb_binding = binding, vb_sealed = []\<rparr>)
          else
            (case NewCertificateVerifier E sessionID validators of
               Inl err \<Rightarrow> Inl err
             | Inr verifier \<Rightarrow>
                 (case verify_journal E verifier (bs_Certificates st) of
                    Inl err \<Rightarrow> Inl err
                  | Inr ss \<Rightarrow>
                      Inr \<lparr>vb_state = Some \<lparr>bs_FirstNonAnnouncedWindow = bs_FirstNonAnnouncedWindow st,
                                     bs_OurVotes = bs_OurVotes st,
                                     bs_Certificates = map (\<lambda>s. Some (s_cert s)) ss\<rparr>,
                           vb_binding = cv_binding verifier, vb_sealed = ss\<rparr>)))"

definition bootstrap_matches :: "validatedBootstrap \<Rightarrow> bootstrapState option \<Rightarrow> bool" where
  "bootstrap_matches b state =
     (case (vb_state b, state) of
        (Some x, Some y) \<Rightarrow>
          bs_FirstNonAnnouncedWindow x = bs_FirstNonAnnouncedWindow y
          \<and> bs_OurVotes x = bs_OurVotes y
          \<and> length (bs_Certificates x) = length (bs_Certificates y)
          \<and> list_all2 certificatesEqual (bs_Certificates x) (bs_Certificates y)
      | (None, None) \<Rightarrow> True
      | _ \<Rightarrow> False)"

section \<open>Copies and comparisons\<close>

lemma cloneCertificate_id [simp]: "cloneCertificate c = c"
  by (cases c) (auto simp: cloneCertificate_def intro: map_idI)

lemma cloneValidators_id [simp]: "cloneValidators vs = vs"
  by (auto simp: cloneValidators_def intro: map_idI)

lemma cloneBootstrapState_id [simp]: "cloneBootstrapState st = st"
  by (cases st) (auto simp: cloneBootstrapState_def map_option_case intro!: map_idI split: option.split)

lemma certificatesEqual_eq: "certificatesEqual a b \<longleftrightarrow> a = b"
proof (cases a; cases b)
  fix x y assume "a = Some x" "b = Some y"
  moreover have "(\<lambda>x y. vs_ValidatorIndex x = vs_ValidatorIndex y \<and> vs_Signature x = vs_Signature y)
      = ((=) :: voteSignature \<Rightarrow> _)"
    by (auto simp: fun_eq_iff)
  ultimately show ?thesis by (auto simp: certificatesEqual_def list_all2_eq [symmetric])
qed (simp_all add: certificatesEqual_def)

lemma bootstrap_matches_eq: "bootstrap_matches b st \<longleftrightarrow> vb_state b = st"
proof -
  have "certificatesEqual = (=)" by (simp add: fun_eq_iff certificatesEqual_eq)
  then show ?thesis
    by (auto simp: bootstrap_matches_def list_all2_eq [symmetric] split: option.split)
qed

section \<open>What verification checks\<close>

abbreviation sig_index :: "voteSignature \<Rightarrow> nat" where
  "sig_index s \<equiv> unat (vs_ValidatorIndex s)"

definition signers :: "certificate \<Rightarrow> nat list" where
  "signers c = map sig_index (cert_Signatures c)"

lemma scan_signatures_iff:
  assumes "length voted = length vs"
  shows "scan_signatures vs voted w ss = Inr w' \<longleftrightarrow>
    (\<forall>s \<in> set ss. sig_index s < length vs \<and> \<not> voted ! sig_index s)
    \<and> distinct (map sig_index ss) \<and> w' = w + sum_list (map (\<lambda>s. Weight (vs ! sig_index s)) ss)"
  using assms
proof (induction ss arbitrary: voted w)
  case (Cons s ss)
  let ?i = "sig_index s"
  show ?case
  proof (cases "?i < length vs \<and> \<not> voted ! ?i")
    case True
    have "scan_signatures vs voted w (s # ss) = Inr w' \<longleftrightarrow>
        scan_signatures vs (voted[?i := True]) (w + Weight (vs ! ?i)) ss = Inr w'"
      using True by (simp add: Let_def)
    also have "\<dots> \<longleftrightarrow> (\<forall>t \<in> set ss. sig_index t < length vs \<and> \<not> voted[?i := True] ! sig_index t)
        \<and> distinct (map sig_index ss)
        \<and> w' = w + Weight (vs ! ?i) + sum_list (map (\<lambda>s. Weight (vs ! sig_index s)) ss)"
      using Cons.prems by (intro Cons.IH) simp
    also have "(\<forall>t \<in> set ss. sig_index t < length vs \<and> \<not> voted[?i := True] ! sig_index t) \<longleftrightarrow>
        (\<forall>t \<in> set ss. sig_index t < length vs \<and> \<not> voted ! sig_index t \<and> sig_index t \<noteq> ?i)"
      using True Cons.prems by (auto simp: nth_list_update)
    finally show ?thesis using True by (auto simp: add.assoc image_iff)
  next
    case False
    then show ?thesis by (auto simp: Let_def)
  qed
qed auto

lemma verify_each_iff: "verify_each ok ss = Inr () \<longleftrightarrow> (\<forall>s \<in> set ss. ok s)"
  by (induction ss) auto

lemma verify_each_find:
  "verify_each ok ss =
     (case find (\<lambda>i. \<not> ok (ss ! i)) [0 ..< length ss] of
        None \<Rightarrow> Inr ()
      | Some i \<Rightarrow> Inl (ECert (EInvalidSignature (vs_ValidatorIndex (ss ! i)))))"
proof (induction ss)
  case (Cons s ss)
  have "find (\<lambda>i. \<not> ok ((s # ss) ! i)) [0 ..< length (s # ss)] =
      (if \<not> ok s then Some 0 else map_option Suc (find (\<lambda>i. \<not> ok (ss ! i)) [0 ..< length ss]))"
  proof -
    have "[0 ..< length (s # ss)] = 0 # map Suc [0 ..< length ss]"
      by (simp add: upt_conv_Cons map_Suc_upt del: upt_Suc)
    moreover have "find P (map Suc xs) = map_option Suc (find (\<lambda>i. P (Suc i)) xs)" for P and xs :: "nat list"
      by (induction xs) auto
    ultimately show ?thesis by simp
  qed
  then show ?case using Cons by (auto split: option.split)
qed simp

lemma find_upt_Some: "find P [0 ..< n] = Some i \<Longrightarrow> i < n \<and> P i"
  by (auto simp: find_Some_iff)

lemma fan_out_find:
  "verifyFanOut n (\<lambda>i. if P i then n else i) =
     (case find (\<lambda>i. \<not> P i) [0 ..< n] of Some i \<Rightarrow> i | None \<Rightarrow> n)"
proof -
  have "find (\<lambda>i. (if P i then n else i) < n) xs = find (\<lambda>i. \<not> P i) xs" if "\<forall>i \<in> set xs. i < n" for xs
    using that by (induction xs) auto
  then have eq: "find (\<lambda>i. (if P i then n else i) < n) [0 ..< n] = find (\<lambda>i. \<not> P i) [0 ..< n]"
    by simp
  show ?thesis
    unfolding verifyFanOut_def eq by (auto dest!: find_upt_Some split: option.split)
qed

text \<open>The parallel and the sequential branch give the same verdict and name the same signature.\<close>

lemma payload_branches:
  fixes cert :: certificate
  defines "n \<equiv> length (cert_Signatures cert)"
  shows "verifyCertificatePayload E vs t payload cert =
    (if n > length vs then Inl (ECert ETooManySignatures)
     else case scan_signatures vs (replicate (length vs) False) 0 (cert_Signatures cert) of
       Inl err \<Rightarrow> Inl err
     | Inr weight \<Rightarrow>
         if weight < t then Inl (ECert ENotEnoughWeight)
         else verify_each (verify_signature E vs payload) (cert_Signatures cert))"
proof -
  let ?ok = "verify_signature E vs payload" and ?sigs = "cert_Signatures cert"
  have eq: "(let bad = verifyFanOut n (\<lambda>i. if ?ok (?sigs ! i) then n else i)
         in if bad < n then Inl (ECert (EInvalidSignature (vs_ValidatorIndex (?sigs ! bad)))) else Inr ())
      = verify_each ?ok ?sigs"
    unfolding fan_out_find verify_each_find n_def
    by (auto simp: Let_def dest!: find_upt_Some split: option.split)
  show ?thesis
    unfolding verifyCertificatePayload_def Let_def n_def [symmetric] eq [unfolded Let_def]
    by (simp split: sum.split)
qed

definition valid_certificate :: "ext \<Rightarrow> validator list \<Rightarrow> u64 \<Rightarrow> bytes \<Rightarrow> certificate \<Rightarrow> bool" where
  "valid_certificate E vs t payload c \<longleftrightarrow>
     (\<forall>i \<in> set (signers c). i < length vs) \<and> distinct (signers c)
     \<and> t \<le> sum_list (map (\<lambda>i. Weight (vs ! i)) (signers c))
     \<and> (\<forall>s \<in> set (cert_Signatures c). verify_signature E vs payload s)"

lemma distinct_bounded_length:
  "distinct xs \<Longrightarrow> \<forall>i \<in> set xs. i < n \<Longrightarrow> length xs \<le> n" for n :: nat
  using card_mono [of "{..< n}" "set xs"] by (auto simp: distinct_card [symmetric])

lemma verifyCertificatePayload_iff:
  "verifyCertificatePayload E vs t payload c = Inr () \<longleftrightarrow> valid_certificate E vs t payload c"
proof -
  let ?scan = "scan_signatures vs (replicate (length vs) False) 0 (cert_Signatures c)"
  let ?w = "sum_list (map (\<lambda>i. Weight (vs ! i)) (signers c))"
  have scan: "?scan = Inr w \<longleftrightarrow> (\<forall>i \<in> set (signers c). i < length vs) \<and> distinct (signers c) \<and> w = ?w" for w
    by (subst scan_signatures_iff) (auto simp: signers_def comp_def)
  show ?thesis
  proof (cases ?scan)
    case (Inl err)
    then have "\<not> ((\<forall>i \<in> set (signers c). i < length vs) \<and> distinct (signers c))"
      using scan [of ?w] by auto
    then show ?thesis using Inl by (auto simp: payload_branches valid_certificate_def)
  next
    case (Inr w)
    then have ok: "\<forall>i \<in> set (signers c). i < length vs" "distinct (signers c)" "w = ?w"
      using scan [of w] by auto
    then have "\<not> length (cert_Signatures c) > length vs"
      using distinct_bounded_length [of "signers c" "length vs"] by (simp add: signers_def)
    then show ?thesis
      using Inr ok by (auto simp: payload_branches valid_certificate_def verify_each_iff)
  qed
qed

text \<open>
  C4. \<open>verifyCertificatePayload\<close> accepts a certificate exactly when its indices are in range and
  pairwise different, the summed weight reaches the threshold and every signature is a valid
  64-byte Ed25519 signature of that validator over the payload; the verdict does not depend on
  how many cores the check is spread over.
\<close>

theorem verifyCertificatePayload_correct:
  "(verifyCertificatePayload E vs t payload c = Inr () \<longleftrightarrow>
      (\<forall>s \<in> set (cert_Signatures c). sig_index s < length vs)
      \<and> distinct (map sig_index (cert_Signatures c))
      \<and> t \<le> sum_list (map (\<lambda>s. Weight (vs ! sig_index s)) (cert_Signatures c))
      \<and> (\<forall>s \<in> set (cert_Signatures c). verify_signature E vs payload s))
   \<and> verifyCertificatePayload (E\<lparr>GOMAXPROCS := procs\<rparr>) vs t payload c
       = verifyCertificatePayload E vs t payload c"
proof
  show "verifyCertificatePayload E vs t payload c = Inr () \<longleftrightarrow>
      (\<forall>s \<in> set (cert_Signatures c). sig_index s < length vs)
      \<and> distinct (map sig_index (cert_Signatures c))
      \<and> t \<le> sum_list (map (\<lambda>s. Weight (vs ! sig_index s)) (cert_Signatures c))
      \<and> (\<forall>s \<in> set (cert_Signatures c). verify_signature E vs payload s)"
    by (simp add: verifyCertificatePayload_iff valid_certificate_def signers_def comp_def)
  have eq: "verify_signature (E\<lparr>GOMAXPROCS := procs\<rparr>) = verify_signature E"
    by (simp add: fun_eq_iff verify_signature_def)
  show "verifyCertificatePayload (E\<lparr>GOMAXPROCS := procs\<rparr>) vs t payload c
       = verifyCertificatePayload E vs t payload c"
    by (simp only: payload_branches eq)
qed

section \<open>Weighted quorums\<close>

text \<open>
  A roster with a quorum size above two thirds of its weight: two quorums share more than a
  third of the weight, so with at most a third faulty they share a correct member.
\<close>

locale weighted_quorum =
  fixes members :: "'r \<Rightarrow> 'v set"
    and weight :: "'r \<Rightarrow> 'v \<Rightarrow> nat"
    and quorum :: "'r \<Rightarrow> nat"
  assumes finite_members: "finite (members r)"
    and quorum_size: "2 * sum (weight r) (members r) < 3 * quorum r"
begin

definition is_quorum :: "'r \<Rightarrow> 'v set \<Rightarrow> bool" where
  "is_quorum r S \<longleftrightarrow> S \<subseteq> members r \<and> quorum r \<le> sum (weight r) S"

lemma quorum_intersection:
  assumes "is_quorum r A" and "is_quorum r B"
  shows "sum (weight r) (members r) < 3 * sum (weight r) (A \<inter> B)"
proof -
  have fin: "finite A" "finite B"
    using assms finite_members [of r] by (auto simp: is_quorum_def intro: finite_subset)
  have "sum (weight r) A + sum (weight r) B = sum (weight r) (A \<union> B) + sum (weight r) (A \<inter> B)"
    using sum.union_inter [OF fin, of "weight r"] by simp
  moreover have "sum (weight r) (A \<union> B) \<le> sum (weight r) (members r)"
    using assms by (intro sum_mono2 [OF finite_members]) (auto simp: is_quorum_def)
  ultimately show ?thesis using assms quorum_size [of r] by (simp add: is_quorum_def)
qed

lemma quorum_correct_member:
  assumes "is_quorum r A" and "is_quorum r B"
    and "F \<subseteq> members r" and "3 * sum (weight r) F \<le> sum (weight r) (members r)"
  shows "\<exists>v \<in> A \<inter> B. v \<notin> F"
proof (rule ccontr)
  assume "\<not> ?thesis"
  then have "A \<inter> B \<subseteq> F" by auto
  then have "sum (weight r) (A \<inter> B) \<le> sum (weight r) F"
    using finite_members [of r] assms(3) by (intro sum_mono2) (auto intro: finite_subset)
  with quorum_intersection [OF assms(1,2)] assms(4) show False by simp
qed

end

definition roster_members :: "validator list \<Rightarrow> nat set" where
  "roster_members vs = {..< length vs}"

definition member_weight :: "validator list \<Rightarrow> nat \<Rightarrow> nat" where
  "member_weight vs i = unat (Weight (vs ! i))"

definition roster_quorum :: "validator list \<Rightarrow> nat" where
  "roster_quorum vs = 2 * roster_weight vs div 3 + 1"

lemma sum_member_weight: "sum (member_weight vs) (roster_members vs) = roster_weight vs"
  by (simp add: roster_weight_def member_weight_def roster_members_def sum_list_sum_nth
      atLeast0LessThan)

interpretation roster: weighted_quorum roster_members member_weight roster_quorum
proof
  fix vs :: "validator list"
  show "finite (roster_members vs)" by (simp add: roster_members_def)
  have "2 * roster_weight vs < 3 * (2 * roster_weight vs div 3 + 1)" by presburger
  then show "2 * sum (member_weight vs) (roster_members vs) < 3 * roster_quorum vs"
    by (simp only: sum_member_weight roster_quorum_def)
qed

text \<open>
  The hypothesis on weights: \<open>groups.SessionID\<close> refuses a weight above \<open>MaxInt64\<close>, so the 64-bit
  sums of a session's roster do not wrap before the cap is tested.
\<close>

definition weights_bounded :: "validator list \<Rightarrow> bool" where
  "weights_bounded vs \<longleftrightarrow> (\<forall>v \<in> set vs. unat (Weight v) < 2 ^ 63)"

definition verifier_for :: "ext \<Rightarrow> h256 \<Rightarrow> validator list \<Rightarrow> certificateVerifier \<Rightarrow> bool" where
  "verifier_for E sid vs cv \<longleftrightarrow> NewCertificateVerifier E sid vs = Inr cv \<and> weights_bounded vs"

lemma verifier_fields:
  assumes "verifier_for E sid vs cv"
  shows "cv_validators cv = vs" and "cb_sessionID (cv_binding cv) = sid"
    and "unat (cv_threshold cv) = roster_quorum vs" and "roster_weight vs \<le> 2 ^ 61"
    and "\<And>i. i < length vs \<Longrightarrow> 0 < member_weight vs i" and "vs \<noteq> []"
proof -
  from assms obtain t b where t: "totalValidatorWeight vs = Inr t" and b: "NewCertificateBinding E sid vs = Inr b"
    and cv: "cv = \<lparr>cv_binding = b, cv_validators = vs, cv_threshold = t * 2 div 3 + 1\<rparr>" and ne: "vs \<noteq> []"
    by (auto simp: verifier_for_def NewCertificateVerifier_def Let_def split: if_splits sum.splits)
  have sum: "unat t = roster_weight vs" "unat t \<le> 2 ^ 61" "\<forall>v \<in> set vs. 0 < Weight v"
    using totalValidatorWeight_sum [OF t] assms by (auto simp: verifier_for_def weights_bounded_def)
  show "cv_validators cv = vs" and "vs \<noteq> []" by (simp_all add: cv ne)
  show "cb_sessionID (cv_binding cv) = sid"
    using b by (auto simp: cv NewCertificateBinding_def split: sum.splits)
  show "roster_weight vs \<le> 2 ^ 61" using sum by simp
  have "unat (t * 2) = unat t * 2" using sum(2) by (simp add: unat_word_ariths(2))
  moreover have "unat t * 2 div 3 + 1 < 2 ^ 64" using sum(2) by simp
  ultimately have "unat (t * 2 div 3 + 1) = unat t * 2 div 3 + 1"
    by (simp add: unat_word_ariths(1) unat_div)
  then show "unat (cv_threshold cv) = roster_quorum vs"
    by (simp add: cv roster_quorum_def sum(1) mult.commute)
  show "0 < member_weight vs i" if "i < length vs" for i
    using sum(3) that by (simp add: member_weight_def word_gt_0 unat_gt_0)
qed




definition vote_payload :: "ext \<Rightarrow> h256 \<Rightarrow> vote \<Rightarrow> bytes" where
  "vote_payload E sid v = DataToSign E sid (VoteBytes E v)"

lemma NewCertificateVerifier_fields:
  assumes "NewCertificateVerifier E sid vs = Inr cv"
  shows "cv_validators cv = vs" and "cb_sessionID (cv_binding cv) = sid"
    and "NewCertificateBinding E sid vs = Inr (cv_binding cv)"
  using assms by (auto simp: NewCertificateVerifier_def NewCertificateBinding_def Let_def
      split: if_splits sum.splits)

lemma verifier_Verify_valid:
  assumes "NewCertificateVerifier E sid vs = Inr cv" and "verifier_Verify E cv c = Inr r"
  shows "\<exists>cert. c = Some cert \<and> r = Some \<lparr>s_cert = cert, s_binding = cv_binding cv\<rparr>
    \<and> valid_certificate E vs (cv_threshold cv) (vote_payload E sid (cert_Vote cert)) cert
    \<and> vote_wf (cert_Vote cert)"
  using assms(2) NewCertificateVerifier_fields [OF assms(1)]
  by (auto simp: verifier_Verify_def sealCertificate_def Let_def vote_payload_def vote_wf_def
      validateCertificateVote_def verifyCertificatePayload_iff [symmetric]
      split: option.splits sum.splits if_splits voteKind.splits)


section \<open>The roster digest commits to the roster\<close>

lemma length_put_le64 [simp]: "length (put_le64 w) = 8"
  by (simp add: put_le64_def)

lemma put_le32_inject: "put_le32 a = put_le32 b \<Longrightarrow> a = b"
  by (metis append_Nil2 get_put_le32)

lemma put_le64_inject: "put_le64 a = put_le64 b \<Longrightarrow> a = b"
proof -
  assume "put_le64 a = put_le64 b"
  then have "ucast a = (ucast b :: u32)" "ucast (drop_bit 32 a) = (ucast (drop_bit 32 b) :: u32)"
    by (auto simp: put_le64_def dest!: put_le32_inject)
  then have bits: "bit (ucast a :: u32) n = bit (ucast b :: u32) n"
    "bit (ucast (drop_bit 32 a) :: u32) n = bit (ucast (drop_bit 32 b) :: u32) n" for n by simp_all
  show "a = b"
  proof (rule bit_word_eqI)
    fix n assume "n < LENGTH(64)"
    then consider "n < 32" | "32 \<le> n" "n < 64" by (simp, linarith)
    then show "bit a n = bit b n"
    proof cases
      case 1
      then show ?thesis using bits(1) [of n] by (simp add: bit_simps)
    next
      case 2
      then have "n - 32 < 32" by simp
      with 2 show ?thesis using bits(2) [of "n - 32"] by (simp add: bit_simps)
    qed
  qed
qed

lemma roster_bytes_inject:
  assumes "roster_bytes_from i vs = Inr b" and "roster_bytes_from j ws = Inr b"
  shows "vs = ws"
  using assms
proof (induction vs arbitrary: ws i j b)
  case Nil
  then show ?case by (cases ws) (auto simp: ed25519_PublicKeySize_def split: sum.splits if_splits)
next
  case (Cons v vs)
  obtain rest where v: "roster_bytes_from (i + 1) vs = Inr rest" "length (PublicKey v) = 32"
    "b = PublicKey v @ put_le64 (Weight v) @ rest"
    using Cons.prems(1) by (auto simp: ed25519_PublicKeySize_def split: sum.splits if_splits)
  then obtain w ws' where ws: "ws = w # ws'" using Cons.prems(2) by (cases ws) auto
  obtain rest' where w: "roster_bytes_from (j + 1) ws' = Inr rest'" "length (PublicKey w) = 32"
    "b = PublicKey w @ put_le64 (Weight w) @ rest'"
    using Cons.prems(2) by (auto simp: ws ed25519_PublicKeySize_def split: sum.splits if_splits)
  have "PublicKey v = PublicKey w" "put_le64 (Weight v) = put_le64 (Weight w)" "rest = rest'"
    using v(2,3) w(2,3) by auto
  then have "v = w" using put_le64_inject [of "Weight v" "Weight w"] by simp
  moreover have "vs = ws'" using Cons.IH [OF v(1)] w(1) \<open>rest = rest'\<close> by simp
  ultimately show ?case by (simp add: ws)
qed

lemma roster_preimage_inject: "roster_preimage vs = Inr b \<Longrightarrow> roster_preimage ws = Inr b \<Longrightarrow> vs = ws"
  using roster_bytes_inject
  by (fastforce simp: roster_preimage_def split: if_splits sum.splits)

text \<open>
  C11. The digest commits to the exact roster: two rosters with the same digest are equal, member
  by member, in order, with the same keys and weights, unless their two encodings are a
  collision of the hash.
\<close>

theorem RosterDigest_commits:
  assumes "RosterDigest E vs = Inr d" and "RosterDigest E ws = Inr d"
    and "inj_on (sha256_Sum256 E) {b. roster_preimage vs = Inr b \<or> roster_preimage ws = Inr b}"
  shows "vs = ws"
proof -
  obtain b1 b2 where b: "roster_preimage vs = Inr b1" "roster_preimage ws = Inr b2"
    "sha256_Sum256 E b1 = sha256_Sum256 E b2"
    using assms(1,2) by (auto simp: RosterDigest_def split: sum.splits)
  have "b1 = b2" using assms(3) b by (auto simp: inj_on_def)
  then show ?thesis using roster_preimage_inject b by blast
qed

lemma verify_journal_all:
  assumes "NewCertificateVerifier E sid vs = Inr cv" and "verify_journal E cv cs = Inr ss"
  shows "cs = map (\<lambda>s. Some (s_cert s)) ss \<and> (\<forall>s \<in> set ss. s_binding s = cv_binding cv
    \<and> vote_wf (cert_Vote (s_cert s))
    \<and> valid_certificate E vs (cv_threshold cv) (vote_payload E sid (cert_Vote (s_cert s))) (s_cert s))"
  using assms(2)
proof (induction cs arbitrary: ss)
  case (Cons c cs)
  then obtain cert vc rest where c: "c = Some cert" and vc: "verifier_Verify E cv (Some cert) = Inr vc"
    and rest: "verify_journal E cv cs = Inr rest"
    and ss: "ss = (case vc of Some s \<Rightarrow> [s] | None \<Rightarrow> []) @ rest"
    by (cases c) (auto split: sum.splits)
  show ?case
    using verifier_Verify_valid [OF assms(1) vc] Cons.IH [OF rest] by (auto simp: ss c)
qed simp

lemma validated_bootstrap:
  assumes v: "NewCertificateVerifier E sid vs = Inr cv" and "ValidateBootstrap E sid vs (Some st) = Inr vb"
  shows "vb_state vb = Some st \<and> vb_binding vb = cv_binding cv
    \<and> bs_Certificates st = map (\<lambda>s. Some (s_cert s)) (vb_sealed vb)
    \<and> (\<forall>s \<in> set (vb_sealed vb). s_binding s = cv_binding cv \<and> vote_wf (cert_Vote (s_cert s))
        \<and> valid_certificate E vs (cv_threshold cv) (vote_payload E sid (cert_Vote (s_cert s))) (s_cert s))"
proof (cases "bs_Certificates st")
  case Nil
  then show ?thesis
    using assms(2) NewCertificateVerifier_fields(3) [OF v] by (auto simp: ValidateBootstrap_def)
next
  case (Cons c cs)
  with assms obtain ss where ss: "verify_journal E cv (bs_Certificates st) = Inr ss"
    and vb: "vb = \<lparr>vb_state = Some \<lparr>bs_FirstNonAnnouncedWindow = bs_FirstNonAnnouncedWindow st,
        bs_OurVotes = bs_OurVotes st, bs_Certificates = map (\<lambda>s. Some (s_cert s)) ss\<rparr>,
        vb_binding = cv_binding cv, vb_sealed = ss\<rparr>"
    by (auto simp: ValidateBootstrap_def split: sum.splits)
  show ?thesis using verify_journal_all [OF v ss] by (auto simp: vb)
qed

text \<open>
  C10. Every certificate a validated bootstrap hands out is one of the journaled certificates,
  in order, and carries a quorum of valid signatures for this session and roster; the state it
  keeps is the journaled state itself.
\<close>

theorem ValidateBootstrap_sound:
  assumes "NewCertificateVerifier E sid vs = Inr cv" and "ValidateBootstrap E sid vs (Some st) = Inr vb"
  shows "vb_state vb = Some st \<and> vb_binding vb = cv_binding cv
    \<and> bs_Certificates st = map (\<lambda>s. Some (s_cert s)) (vb_sealed vb)
    \<and> (\<forall>s \<in> set (vb_sealed vb). binding_IsZero (cv_binding cv) \<or> binding_Check (cv_binding cv) (Some s) = Inr ())
    \<and> (\<forall>s \<in> set (vb_sealed vb).
         verifyCertificatePayload E vs (cv_threshold cv)
           (DataToSign E sid (VoteBytes E (cert_Vote (s_cert s)))) (s_cert s) = Inr ())"
  using validated_bootstrap [OF assms]
  by (auto simp: verifyCertificatePayload_iff vote_payload_def binding_Check_def)

section \<open>Witnesses\<close>

text \<open>Four validators of weight one; three of them are a quorum.\<close>

definition demo_key :: "nat \<Rightarrow> bytes" where
  "demo_key i = replicate 32 (of_nat (i + 1))"

definition demo_roster :: "validator list" where
  "demo_roster = map (\<lambda>i. \<lparr>PublicKey = demo_key i, Weight = 1\<rparr>) [0, 1, 2, 3]"

abbreviation demo :: ext where "demo \<equiv> demo_ext (demo_key 0)"

definition demo_verifier :: certificateVerifier where
  "demo_verifier = (case NewCertificateVerifier demo 7 demo_roster of Inr cv \<Rightarrow> cv)"

definition demo_certificate :: "vote \<Rightarrow> certificate" where
  "demo_certificate v = \<lparr>cert_Vote = v, cert_Signatures =
     map (\<lambda>i. \<lparr>vs_ValidatorIndex = of_nat i,
               vs_Signature = demo_sig (demo_key i) (vote_payload demo 7 v)\<rparr>) [0, 1, 2]\<rparr>"

lemma demo_verifier_for: "verifier_for demo 7 demo_roster demo_verifier"
proof -
  have "\<exists>cv. NewCertificateVerifier demo 7 demo_roster = Inr cv"
    by (simp add: NewCertificateVerifier_def NewCertificateBinding_def RosterDigest_def roster_preimage_def
        totalValidatorWeight_def demo_roster_def demo_key_def ed25519_PublicKeySize_def maxTotalWeight_def)
  then show ?thesis
    by (auto simp: verifier_for_def demo_verifier_def weights_bounded_def demo_roster_def)
qed

lemma demo_threshold: "cv_threshold demo_verifier = 3"
proof -
  have "unat (cv_threshold demo_verifier) = 3"
    by (simp add: verifier_fields(3) [OF demo_verifier_for] roster_quorum_def roster_weight_def demo_roster_def)
  then show ?thesis by (simp add: word_unat_eq_iff)
qed

lemma length_demo_sig: "length (demo_sig (demo_key i) msg) = 64"
  by (simp add: demo_sig_def demo_key_def)

lemma demo_certificate_valid:
  "valid_certificate demo demo_roster (cv_threshold demo_verifier) (vote_payload demo 7 v) (demo_certificate v)"
  by (simp add: valid_certificate_def demo_certificate_def signers_def demo_threshold demo_roster_def
      verify_signature_def length_demo_sig ed25519_SignatureSize_def, simp add: demo_ext_def)

lemma demo_certificate_verifies:
  "vote_wf v \<Longrightarrow> verifier_Verify demo demo_verifier (Some (demo_certificate v)) =
     Inr (Some \<lparr>s_cert = demo_certificate v, s_binding = cv_binding demo_verifier\<rparr>)"
proof -
  assume "vote_wf v"
  note f = verifier_fields(1,2) [OF demo_verifier_for]
  have "cert_Vote (demo_certificate v) = v" "length (cert_Signatures (demo_certificate v)) = 3"
    by (simp_all add: demo_certificate_def)
  then show ?thesis
    using demo_certificate_valid [of v] \<open>vote_wf v\<close> f
    by (simp add: verifier_Verify_def Let_def sealCertificate_def validateCertificateVote_def vote_wf_def
        verifyCertificatePayload_iff [symmetric] vote_payload_def demo_roster_def split: voteKind.split sum.split)
qed

theorem verifyCertificatePayload_correct_witness:
  "verifyCertificatePayload (demo\<lparr>GOMAXPROCS := 1\<rparr>) demo_roster 3 (vote_payload demo 7 (SkipVote 5))
     (demo_certificate (SkipVote 5)) = Inr ()"
  using verifyCertificatePayload_correct [of demo demo_roster 3 "vote_payload demo 7 (SkipVote 5)"
      "demo_certificate (SkipVote 5)" 1]
    demo_certificate_valid [of "SkipVote 5"]
  by (simp add: verifyCertificatePayload_iff demo_threshold)




theorem RosterDigest_commits_witness:
  "\<exists>d. RosterDigest demo (take 4 (demo_roster @ demo_roster)) = Inr d
     \<and> RosterDigest demo demo_roster = Inr d \<and> take 4 (demo_roster @ demo_roster) = demo_roster"
proof -
  have eq: "RosterDigest demo (take 4 (demo_roster @ demo_roster)) = RosterDigest demo demo_roster"
    and pre: "roster_preimage (take 4 (demo_roster @ demo_roster)) = roster_preimage demo_roster"
    by (simp_all add: demo_roster_def)
  obtain d where d: "RosterDigest demo demo_roster = Inr d"
    using demo_verifier_for
    by (auto simp: verifier_for_def NewCertificateVerifier_def NewCertificateBinding_def Let_def
        split: sum.splits if_splits)
  have "take 4 (demo_roster @ demo_roster) = demo_roster"
    by (rule RosterDigest_commits [of demo _ d]) (simp_all only: eq pre d, auto simp: inj_on_def)
  with d eq show ?thesis by auto
qed

theorem ValidateBootstrap_sound_witness:
  "\<exists>vb. ValidateBootstrap demo 7 demo_roster
     (Some \<lparr>bs_FirstNonAnnouncedWindow = 2, bs_OurVotes = [SkipVote 1],
            bs_Certificates = [Some (demo_certificate (SkipVote 5))]\<rparr>) = Inr vb
   \<and> length (vb_sealed vb) = 1
   \<and> (\<forall>s \<in> set (vb_sealed vb). s_cert s = demo_certificate (SkipVote 5))"
proof -
  let ?st = "\<lparr>bs_FirstNonAnnouncedWindow = 2, bs_OurVotes = [SkipVote 1],
            bs_Certificates = [Some (demo_certificate (SkipVote 5))]\<rparr>"
  have "NewCertificateVerifier demo 7 demo_roster = Inr demo_verifier"
    using demo_verifier_for by (simp add: verifier_for_def)
  note new = this
  then obtain vb where vb: "ValidateBootstrap demo 7 demo_roster (Some ?st) = Inr vb"
    using demo_certificate_verifies [of "SkipVote 5"] by (simp add: ValidateBootstrap_def)
  from ValidateBootstrap_sound [OF new vb]
  have "map (\<lambda>s. Some (s_cert s)) (vb_sealed vb) = [Some (demo_certificate (SkipVote 5))]" by simp
  then show ?thesis using vb by auto
qed

end
