(* ===== verification/PoolSlot.thy ===== *)
theory PoolSlot
  imports Certificates
begin

text \<open>
  The per-slot state of the pool, first part of \<open>service/validator/simplex/pool.go\<close>: the voting
  record of each validator with the Simplex conflict rules, the weight counters, the
  certificates and the available base of a slot. A zero \<open>proven\<close> (\<open>set == false\<close>) is \<open>None\<close>.
\<close>

section \<open>Voting records\<close>

record proven =
  p_fromCert :: bool
  p_vote :: vote
  p_sig :: bytes
  p_cert :: "certificate option"

definition proofBytes :: "ext \<Rightarrow> u32 \<Rightarrow> proven \<Rightarrow> bytes" where
  "proofBytes E idx p =
     (case p_cert p of
        Some c \<Rightarrow> Certificate_Serialize E c
      | None \<Rightarrow> SignedVote_Serialize E
          \<lparr>sv_ValidatorIndex = idx, sv_Vote = p_vote p, sv_Signature = p_sig p\<rparr>)"

type_synonym conflictEvidence = "proven \<times> proven"

definition conflict_misbehavior :: "ext \<Rightarrow> u32 \<Rightarrow> conflictEvidence \<Rightarrow> misbehavior" where
  "conflict_misbehavior E idx c =
     \<lparr>m_Kind = MisbehaviorConflictingVotes,
      m_Proof1 = proofBytes E idx (fst c), m_Proof2 = proofBytes E idx (snd c)\<rparr>"

record validatorVotes =
  vv_notarize :: "proven option"
  vv_skip :: "proven option"
  vv_finalize :: "proven option"

definition no_votes :: validatorVotes where
  "no_votes = \<lparr>vv_notarize = None, vv_skip = None, vv_finalize = None\<rparr>"

definition byKind :: "voteKind \<Rightarrow> validatorVotes \<Rightarrow> proven option" where
  "byKind k vv =
     (case k of VoteNotarize \<Rightarrow> vv_notarize vv | VoteFinalize \<Rightarrow> vv_finalize vv | VoteSkip \<Rightarrow> vv_skip vv)"

text \<open>The write \<open>*byKind(k) = p\<close>.\<close>

definition set_byKind :: "voteKind \<Rightarrow> proven option \<Rightarrow> validatorVotes \<Rightarrow> validatorVotes" where
  "set_byKind k p vv =
     (case k of
        VoteNotarize \<Rightarrow> vv\<lparr>vv_notarize := p\<rparr>
      | VoteFinalize \<Rightarrow> vv\<lparr>vv_finalize := p\<rparr>
      | VoteSkip \<Rightarrow> vv\<lparr>vv_skip := p\<rparr>)"

definition wants :: "validatorVotes \<Rightarrow> vote \<Rightarrow> bool" where
  "wants vv v \<longleftrightarrow> byKind (v_Kind v) vv = None"

definition checkInvariants :: "validatorVotes \<Rightarrow> conflictEvidence option" where
  "checkInvariants vv =
     (case (vv_notarize vv, vv_finalize vv, vv_skip vv) of
        (Some n, Some f, s) \<Rightarrow>
          if v_ID (p_vote n) \<noteq> v_ID (p_vote f) then Some (n, f)
          else (case s of Some k \<Rightarrow> Some (f, k) | None \<Rightarrow> None)
      | (None, Some f, Some k) \<Rightarrow> Some (f, k)
      | _ \<Rightarrow> None)"

definition vv_add :: "proven \<Rightarrow> validatorVotes \<Rightarrow> bool \<times> conflictEvidence option \<times> validatorVotes" where
  "vv_add p vv =
     (let k = v_Kind (p_vote p)
      in case byKind k vv of
           Some q \<Rightarrow>
             if (k = VoteNotarize \<or> k = VoteFinalize) \<and> p_vote q \<noteq> p_vote p
             then (False, Some (p, q), vv) else (False, None, vv)
         | None \<Rightarrow>
             (let vv' = set_byKind k (Some p) vv
              in case checkInvariants vv' of
                   Some c \<Rightarrow> (False, Some c, set_byKind k None vv')
                 | None \<Rightarrow> (True, None, vv')))"

section \<open>Slots\<close>

record poolSlot =
  votes :: "validatorVotes list"
  notarCert :: "certificate option"
  skipCert :: "certificate option"
  finalCert :: "certificate option"
  notarSaving :: bool
  skipSaving :: bool
  finalSaving :: bool
  skipWeight :: u64
  notarizeWeight :: "(candidateID \<times> u64) list"
  finalizeWeight :: "(candidateID \<times> u64) list"
  availableBase :: "parentID option"

definition newPoolSlot :: "nat \<Rightarrow> poolSlot" where
  "newPoolSlot validators =
     \<lparr>votes = replicate validators no_votes, notarCert = None, skipCert = None, finalCert = None,
      notarSaving = False, skipSaving = False, finalSaving = False, skipWeight = 0,
      notarizeWeight = [], finalizeWeight = [], availableBase = None\<rparr>"

text \<open>\<open>certByKind\<close> returns two pointers; these are the reads and the writes through them.\<close>

definition certByKind :: "voteKind \<Rightarrow> poolSlot \<Rightarrow> certificate option \<times> bool" where
  "certByKind k s =
     (case k of
        VoteNotarize \<Rightarrow> (notarCert s, notarSaving s)
      | VoteFinalize \<Rightarrow> (finalCert s, finalSaving s)
      | VoteSkip \<Rightarrow> (skipCert s, skipSaving s))"

definition set_cert :: "voteKind \<Rightarrow> certificate option \<Rightarrow> poolSlot \<Rightarrow> poolSlot" where
  "set_cert k c s =
     (case k of
        VoteNotarize \<Rightarrow> s\<lparr>notarCert := c\<rparr>
      | VoteFinalize \<Rightarrow> s\<lparr>finalCert := c\<rparr>
      | VoteSkip \<Rightarrow> s\<lparr>skipCert := c\<rparr>)"

definition set_saving :: "voteKind \<Rightarrow> bool \<Rightarrow> poolSlot \<Rightarrow> poolSlot" where
  "set_saving k b s =
     (case k of
        VoteNotarize \<Rightarrow> s\<lparr>notarSaving := b\<rparr>
      | VoteFinalize \<Rightarrow> s\<lparr>finalSaving := b\<rparr>
      | VoteSkip \<Rightarrow> s\<lparr>skipSaving := b\<rparr>)"

definition needs :: "poolSlot \<Rightarrow> vote \<Rightarrow> bool" where
  "needs s v \<longleftrightarrow> fst (certByKind (v_Kind v) s) = None \<and> \<not> snd (certByKind (v_Kind v) s)"

definition willBe :: "poolSlot \<Rightarrow> voteKind \<Rightarrow> bool" where
  "willBe s k \<longleftrightarrow> fst (certByKind k s) \<noteq> None \<or> snd (certByKind k s)"

definition notarizedBlock :: "poolSlot \<Rightarrow> candidateID option" where
  "notarizedBlock s =
     (case notarCert s of
        Some c \<Rightarrow> Some (v_ID (cert_Vote c))
      | None \<Rightarrow> (case finalCert s of Some c \<Rightarrow> Some (v_ID (cert_Vote c)) | None \<Rightarrow> None))"

definition addAvailableBase :: "parentID \<Rightarrow> poolSlot \<Rightarrow> poolSlot" where
  "addAvailableBase p s =
     (case availableBase s of
        None \<Rightarrow> s\<lparr>availableBase := Some p\<rparr>
      | Some b \<Rightarrow> if compare_parent p b \<ge> 0 then s\<lparr>availableBase := Some p\<rparr> else s)"

text \<open>The counters of \<open>onVoteApplied\<close>: the new weight behind the vote, and the slot with it stored.\<close>

definition weight_read :: "'k \<Rightarrow> ('k \<times> u64) list \<Rightarrow> u64" where
  "weight_read k m = (case map_of m k of Some w \<Rightarrow> w | None \<Rightarrow> 0)"

definition add_weight :: "u64 \<Rightarrow> vote \<Rightarrow> poolSlot \<Rightarrow> u64 \<times> poolSlot" where
  "add_weight w v s =
     (case v_Kind v of
        VoteNotarize \<Rightarrow>
          (let nw = weight_read (v_ID v) (notarizeWeight s) + w
           in (nw, s\<lparr>notarizeWeight := map_put (v_ID v) nw (notarizeWeight s)\<rparr>))
      | VoteFinalize \<Rightarrow>
          (let nw = weight_read (v_ID v) (finalizeWeight s) + w
           in (nw, s\<lparr>finalizeWeight := map_put (v_ID v) nw (finalizeWeight s)\<rparr>))
      | VoteSkip \<Rightarrow> (skipWeight s + w, s\<lparr>skipWeight := skipWeight s + w\<rparr>))"

definition build_signature :: "vote \<Rightarrow> validatorVotes list \<Rightarrow> nat \<Rightarrow> voteSignature list" where
  "build_signature v vvs i =
     (case byKind (v_Kind v) (vvs ! i) of
        Some p \<Rightarrow>
          if \<not> p_fromCert p \<and> p_vote p = v
          then [\<lparr>vs_ValidatorIndex = of_nat i, vs_Signature = p_sig p\<rparr>] else []
      | None \<Rightarrow> [])"

definition buildCertificate :: "poolSlot \<Rightarrow> vote \<Rightarrow> certificate" where
  "buildCertificate s v =
     \<lparr>cert_Vote = v,
      cert_Signatures = concat (map (build_signature v (votes s)) [0 ..< length (votes s)])\<rparr>"

section \<open>The conflict rules\<close>

text \<open>
  Specification of a voting record of slot \<open>i\<close>, from the comment of \<open>validatorVotes\<close>: each
  record holds a vote of its kind for this slot, notarize and finalize name the same
  candidate, finalize and skip exclude each other, notarize and skip may coexist.
\<close>

definition record_ok :: "u32 \<Rightarrow> voteKind \<Rightarrow> proven option \<Rightarrow> bool" where
  "record_ok i k r \<longleftrightarrow>
     (\<forall>p. r = Some p \<longrightarrow> v_Kind (p_vote p) = k \<and> vote_Slot (p_vote p) = i \<and> vote_wf (p_vote p))"

definition vv_ok :: "u32 \<Rightarrow> validatorVotes \<Rightarrow> bool" where
  "vv_ok i vv \<longleftrightarrow> (\<forall>k. record_ok i k (byKind k vv)) \<and> checkInvariants vv = None"

definition kinds_are :: "vote \<Rightarrow> vote \<Rightarrow> voteKind \<Rightarrow> voteKind \<Rightarrow> bool" where
  "kinds_are a b k l \<longleftrightarrow> v_Kind a = k \<and> v_Kind b = l \<or> v_Kind a = l \<and> v_Kind b = k"

definition votes_conflict :: "vote \<Rightarrow> vote \<Rightarrow> bool" where
  "votes_conflict a b \<longleftrightarrow> vote_Slot a = vote_Slot b \<and>
     (v_Kind a = v_Kind b \<and> a \<noteq> b
      \<or> kinds_are a b VoteNotarize VoteFinalize \<and> v_ID a \<noteq> v_ID b
      \<or> kinds_are a b VoteFinalize VoteSkip)"

lemma byKind_set [simp]: "byKind k (set_byKind k' p vv) = (if k = k' then p else byKind k vv)"
  by (cases k; cases k') (simp_all add: byKind_def set_byKind_def)

lemma set_byKind_twice [simp]: "set_byKind k q (set_byKind k p vv) = set_byKind k q vv"
  by (cases k) (simp_all add: set_byKind_def)

lemma set_byKind_same: "byKind k vv = p \<Longrightarrow> set_byKind k p vv = vv"
  by (cases k) (auto simp: set_byKind_def byKind_def)

lemma byKind_no_votes [simp]: "byKind k no_votes = None"
  by (cases k) (simp_all add: byKind_def no_votes_def)

lemma vv_ok_no_votes [simp]: "vv_ok i no_votes"
  by (simp add: vv_ok_def record_ok_def checkInvariants_def) (simp add: no_votes_def)

lemma checkInvariants_None:
  "checkInvariants vv = None \<longleftrightarrow>
     (\<forall>f. vv_finalize vv = Some f \<longrightarrow> vv_skip vv = None
       \<and> (\<forall>n. vv_notarize vv = Some n \<longrightarrow> v_ID (p_vote n) = v_ID (p_vote f)))"
  by (auto simp: checkInvariants_def split: option.splits if_splits)

lemma byKind_simps [simp]:
  "byKind VoteNotarize vv = vv_notarize vv" "byKind VoteFinalize vv = vv_finalize vv"
  "byKind VoteSkip vv = vv_skip vv"
  by (simp_all add: byKind_def)

text \<open>A conflict changes nothing; a newly applied vote is stored under its kind.\<close>

lemma vv_add_cases:
  obtains (conflict) c where "vv_add p vv = (False, Some c, vv)"
  | (duplicate) "vv_add p vv = (False, None, vv)" "byKind (v_Kind (p_vote p)) vv \<noteq> None"
  | (applied) "vv_add p vv = (True, None, set_byKind (v_Kind (p_vote p)) (Some p) vv)"
      "byKind (v_Kind (p_vote p)) vv = None"
      "checkInvariants (set_byKind (v_Kind (p_vote p)) (Some p) vv) = None"
proof (cases "byKind (v_Kind (p_vote p)) vv")
  case None
  then show ?thesis
    using that by (cases "checkInvariants (set_byKind (v_Kind (p_vote p)) (Some p) vv)")
      (auto simp: vv_add_def Let_def set_byKind_same)
next
  case (Some q)
  then show ?thesis
    using that
    by (cases "(v_Kind (p_vote p) = VoteNotarize \<or> v_Kind (p_vote p) = VoteFinalize) \<and> p_vote q \<noteq> p_vote p")
      (auto simp: vv_add_def Let_def)
qed

lemma vv_add_ok:
  assumes "vv_ok i vv" and "vote_Slot (p_vote p) = i" and "vote_wf (p_vote p)"
  shows "vv_ok i (snd (snd (vv_add p vv)))"
  using assms by (cases rule: vv_add_cases [of p vv]) (auto simp: vv_ok_def record_ok_def)

lemma kind_eq_skip:
  "vote_wf a \<Longrightarrow> vote_wf b \<Longrightarrow> v_Kind a = VoteSkip \<Longrightarrow> v_Kind b = VoteSkip \<Longrightarrow>
     vote_Slot a = vote_Slot b \<Longrightarrow> a = b"
  by (cases a; cases b) (auto simp: vote_wf_def vote_Slot_def candidateID_eq_iff)

lemma all_kinds: "(\<forall>k. P k) \<longleftrightarrow> P VoteNotarize \<and> P VoteFinalize \<and> P VoteSkip"
  by (metis voteKind.exhaust)

lemma votes_conflict_sym: "votes_conflict a b \<longleftrightarrow> votes_conflict b a"
  by (auto simp: votes_conflict_def kinds_are_def)

lemma votes_conflict_same_kind:
  "v_Kind a = v_Kind b \<Longrightarrow> votes_conflict a b \<longleftrightarrow> vote_Slot a = vote_Slot b \<and> a \<noteq> b"
  by (cases "v_Kind b") (auto simp: votes_conflict_def kinds_are_def)

lemma votes_conflict_kinds:
  assumes "v_Kind a = k" and "v_Kind b = l" and "k \<noteq> l" and "vote_Slot a = vote_Slot b"
  shows "votes_conflict a b \<longleftrightarrow>
    (if VoteSkip \<notin> {k, l} then v_ID a \<noteq> v_ID b else VoteFinalize \<in> {k, l})"
  using assms by (cases k; cases l) (auto simp: votes_conflict_def kinds_are_def)

text \<open>The two tests of \<open>checkInvariants\<close> are the conflict rules between recorded votes.\<close>

lemma checkInvariants_conflicts:
  assumes "\<forall>k. record_ok i k (byKind k vv)"
  shows "checkInvariants vv = None \<longleftrightarrow>
    (\<forall>k l q r. byKind k vv = Some q \<longrightarrow> byKind l vv = Some r \<longrightarrow> \<not> votes_conflict (p_vote q) (p_vote r))"
proof -
  have rec: "v_Kind (p_vote q) = k \<and> vote_Slot (p_vote q) = i" if "byKind k vv = Some q" for k q
    using assms that by (simp add: record_ok_def)
  have same: "\<not> votes_conflict (p_vote q) (p_vote q)" for q
    by (simp add: votes_conflict_same_kind)
  have pair: "votes_conflict (p_vote q) (p_vote r) \<longleftrightarrow>
      (if VoteSkip \<notin> {k, l} then v_ID (p_vote q) \<noteq> v_ID (p_vote r) else VoteFinalize \<in> {k, l})"
    if "byKind k vv = Some q" "byKind l vv = Some r" "k \<noteq> l" for k l q r
    using rec [OF that(1)] rec [OF that(2)] that(3) by (intro votes_conflict_kinds) auto
  show ?thesis (is "_ \<longleftrightarrow> ?free")
  proof
    assume inv: "checkInvariants vv = None"
    show ?free
    proof (intro allI impI)
      fix k l q r assume q: "byKind k vv = Some q" and r: "byKind l vv = Some r"
      show "\<not> votes_conflict (p_vote q) (p_vote r)"
        using inv q r same pair [OF q r]
        by (cases k; cases l) (auto simp: checkInvariants_None)
    qed
  next
    assume free: ?free
    then show "checkInvariants vv = None"
      unfolding checkInvariants_None
      using pair [of VoteFinalize _ VoteSkip] pair [of VoteNotarize _ VoteFinalize] free
      by (metis byKind_simps insert_iff not_None_eq voteKind.distinct(1,3,5) singletonD)
  qed
qed

text \<open>
  C8. The voting record applies the Simplex conflict rules exactly: adding a well-formed vote to a
  consistent record reports a conflict if and only if the vote contradicts a recorded one, and
  then changes nothing; it is applied if and only if its kind is free and it contradicts
  nothing; the record stays consistent.
\<close>

theorem vv_add_conflict_rules:
  assumes "vv_ok i vv" and "vote_Slot (p_vote p) = i" and "vote_wf (p_vote p)"
  shows "vv_ok i (snd (snd (vv_add p vv)))
    \<and> (fst (snd (vv_add p vv)) \<noteq> None \<longleftrightarrow>
         (\<exists>k q. byKind k vv = Some q \<and> votes_conflict (p_vote p) (p_vote q)))
    \<and> (fst (vv_add p vv) \<longleftrightarrow>
         wants vv (p_vote p) \<and> (\<nexists>k q. byKind k vv = Some q \<and> votes_conflict (p_vote p) (p_vote q)))
    \<and> snd (snd (vv_add p vv)) =
         (if fst (vv_add p vv) then set_byKind (v_Kind (p_vote p)) (Some p) vv else vv)"
proof -
  let ?v = "p_vote p" and ?k = "v_Kind (p_vote p)"
  let ?bad = "\<exists>k q. byKind k vv = Some q \<and> votes_conflict ?v (p_vote q)"
  have ok: "\<forall>k. record_ok i k (byKind k vv)" and inv: "checkInvariants vv = None"
    using assms(1) by (auto simp: vv_ok_def)
  note free = inv [unfolded checkInvariants_conflicts [OF ok], rule_format]
  have main: "(fst (snd (vv_add p vv)) \<noteq> None \<longleftrightarrow> ?bad) \<and> (fst (vv_add p vv) \<longleftrightarrow> wants vv ?v \<and> \<not> ?bad)"
  proof (cases "byKind ?k vv")
    case None
    let ?vv = "set_byKind ?k (Some p) vv"
    have "\<forall>k. record_ok i k (byKind k ?vv)" using ok assms(2,3) by (simp add: record_ok_def)
    then have "checkInvariants ?vv = None \<longleftrightarrow>
        (\<forall>k l q r. byKind k ?vv = Some q \<longrightarrow> byKind l ?vv = Some r \<longrightarrow> \<not> votes_conflict (p_vote q) (p_vote r))"
      by (rule checkInvariants_conflicts)
    also have "\<dots> \<longleftrightarrow> \<not> ?bad" (is "?all \<longleftrightarrow> _")
    proof
      assume ?all
      then have "\<not> votes_conflict ?v (p_vote q)" if "byKind k vv = Some q" for k q
        using that None by (metis byKind_set option.distinct(1))
      then show "\<not> ?bad" by blast
    next
      assume nb: "\<not> ?bad"
      show ?all
      proof (intro allI impI)
        fix k l q r assume "byKind k ?vv = Some q" "byKind l ?vv = Some r"
        then have "q = p \<or> byKind k vv = Some q" "r = p \<or> byKind l vv = Some r"
          by (auto split: if_splits)
        then show "\<not> votes_conflict (p_vote q) (p_vote r)"
          using nb free [of k q l r] votes_conflict_sym votes_conflict_same_kind [of ?v ?v] by metis
      qed
    qed
    finally have chk: "checkInvariants ?vv = None \<longleftrightarrow> \<not> ?bad" .
    show ?thesis
      using None chk by (cases "checkInvariants ?vv") (auto simp: vv_add_def Let_def wants_def)
  next
    case (Some q)
    then have q: "v_Kind (p_vote q) = ?k" "vote_Slot (p_vote q) = i" "vote_wf (p_vote q)"
      using ok by (auto simp: record_ok_def)
    have "?bad \<longleftrightarrow> p_vote q \<noteq> ?v"
    proof
      assume ?bad
      then show "p_vote q \<noteq> ?v" using free [OF Some] by metis
    next
      assume "p_vote q \<noteq> ?v"
      then have "votes_conflict ?v (p_vote q)" using q assms(2) by (auto simp: votes_conflict_same_kind)
      with Some show ?bad by blast
    qed
    moreover have "p_vote q = ?v" if "?k = VoteSkip"
      using kind_eq_skip [of "p_vote q" ?v] q assms(2,3) that by simp
    ultimately show ?thesis
      using Some by (cases ?k) (auto simp: vv_add_def Let_def wants_def)
  qed
  have "snd (snd (vv_add p vv)) = (if fst (vv_add p vv) then set_byKind ?k (Some p) vv else vv)"
    by (cases rule: vv_add_cases [of p vv]) auto
  with main vv_add_ok [OF assms] show ?thesis by simp
qed

definition demo_finalize :: proven where
  "demo_finalize = \<lparr>p_fromCert = False, p_vote = FinalizeVote (CandidateID 4 9), p_sig = [], p_cert = None\<rparr>"

definition demo_skip :: proven where
  "demo_skip = \<lparr>p_fromCert = False, p_vote = SkipVote 4, p_sig = [1], p_cert = None\<rparr>"

definition demo_record :: validatorVotes where
  "demo_record = \<lparr>vv_notarize = None, vv_skip = None, vv_finalize = Some demo_finalize\<rparr>"

lemma demo_record_ok: "vv_ok 4 demo_record"
  by (simp add: vv_ok_def all_kinds record_ok_def checkInvariants_None demo_record_def)
    (simp add: demo_finalize_def FinalizeVote_def vote_Slot_def vote_wf_def)

theorem vv_add_conflict_rules_witness: "\<not> fst (vv_add demo_skip demo_record)"
proof -
  have v: "vote_Slot (p_vote demo_skip) = 4" "vote_wf (p_vote demo_skip)"
    by (simp_all add: demo_skip_def) (simp add: SkipVote_def vote_Slot_def)
  have "byKind VoteFinalize demo_record = Some demo_finalize"
    "votes_conflict (p_vote demo_skip) (p_vote demo_finalize)"
    by (simp_all add: demo_record_def demo_skip_def demo_finalize_def votes_conflict_def SkipVote_def
        FinalizeVote_def vote_Slot_def kinds_are_def)
  then show ?thesis using vv_add_conflict_rules [OF demo_record_ok v] by blast
qed

section \<open>The invariant of a slot\<close>

definition direct_vote :: "vote \<Rightarrow> validatorVotes \<Rightarrow> bool" where
  "direct_vote v vv \<longleftrightarrow> (\<exists>p. byKind (v_Kind v) vv = Some p \<and> \<not> p_fromCert p \<and> p_vote p = v)"

definition direct_weight :: "validator list \<Rightarrow> validatorVotes list \<Rightarrow> vote \<Rightarrow> u64" where
  "direct_weight vs vvs v = (\<Sum>i < length vvs. if direct_vote v (vvs ! i) then Weight (vs ! i) else 0)"

definition slot_weight :: "poolSlot \<Rightarrow> vote \<Rightarrow> u64" where
  "slot_weight s v =
     (case v_Kind v of
        VoteNotarize \<Rightarrow> weight_read (v_ID v) (notarizeWeight s)
      | VoteFinalize \<Rightarrow> weight_read (v_ID v) (finalizeWeight s)
      | VoteSkip \<Rightarrow> skipWeight s)"

text \<open>
  \<open>good i v sig\<close> says that \<open>sig\<close> is a valid signature of validator \<open>i\<close> on \<open>v\<close>, and
  \<open>valid c\<close> that certificate \<open>c\<close> verifies; both are fixed by the session.
\<close>

definition votes_ok ::
  "validator list \<Rightarrow> (nat \<Rightarrow> vote \<Rightarrow> bytes \<Rightarrow> bool) \<Rightarrow> u32 \<Rightarrow> validatorVotes list \<Rightarrow> bool" where
  "votes_ok vs good i vvs \<longleftrightarrow>
     length vvs = length vs
     \<and> (\<forall>j < length vs. vv_ok i (vvs ! j)
          \<and> (\<forall>k p. byKind k (vvs ! j) = Some p \<longrightarrow> good j (p_vote p) (p_sig p)))"

definition weights_ok :: "validator list \<Rightarrow> u32 \<Rightarrow> poolSlot \<Rightarrow> bool" where
  "weights_ok vs i s \<longleftrightarrow>
     (\<forall>v. vote_wf v \<longrightarrow> vote_Slot v = i \<longrightarrow> slot_weight s v = direct_weight vs (votes s) v)"

definition cert_for :: "(certificate \<Rightarrow> bool) \<Rightarrow> u32 \<Rightarrow> voteKind \<Rightarrow> certificate \<Rightarrow> bool" where
  "cert_for valid i k c \<longleftrightarrow>
     v_Kind (cert_Vote c) = k \<and> vote_Slot (cert_Vote c) = i \<and> vote_wf (cert_Vote c) \<and> valid c"

definition certs_ok :: "(certificate \<Rightarrow> bool) \<Rightarrow> u32 \<Rightarrow> poolSlot \<Rightarrow> bool" where
  "certs_ok valid i s \<longleftrightarrow> (\<forall>k c. fst (certByKind k s) = Some c \<longrightarrow> cert_for valid i k c)"

definition poolSlot_ok ::
  "validator list \<Rightarrow> (nat \<Rightarrow> vote \<Rightarrow> bytes \<Rightarrow> bool) \<Rightarrow> (certificate \<Rightarrow> bool) \<Rightarrow> u32 \<Rightarrow> poolSlot \<Rightarrow> bool" where
  "poolSlot_ok vs good valid i s \<longleftrightarrow>
     votes_ok vs good i (votes s) \<and> weights_ok vs i s \<and> certs_ok valid i s"

lemma votes_ok_nth:
  "votes_ok vs good i vvs \<Longrightarrow> j < length vs \<Longrightarrow> vv_ok i (vvs ! j)"
  "votes_ok vs good i vvs \<Longrightarrow> j < length vs \<Longrightarrow> byKind k (vvs ! j) = Some p \<Longrightarrow> good j (p_vote p) (p_sig p)"
  by (auto simp: votes_ok_def)

lemma certByKind_simps [simp]:
  "certByKind VoteNotarize s = (notarCert s, notarSaving s)"
  "certByKind VoteFinalize s = (finalCert s, finalSaving s)"
  "certByKind VoteSkip s = (skipCert s, skipSaving s)"
  by (simp_all add: certByKind_def)

lemma cert_set_cert [simp]:
  "certByKind k (set_cert k' c s) = (if k = k' then (c, snd (certByKind k s)) else certByKind k s)"
  by (cases k; cases k') (simp_all add: set_cert_def)

lemma cert_set_saving [simp]:
  "certByKind k (set_saving k' b s) = (if k = k' then (fst (certByKind k s), b) else certByKind k s)"
  by (cases k; cases k') (simp_all add: set_saving_def)

lemma slot_weight_simps:
  "v_Kind v = VoteNotarize \<Longrightarrow> slot_weight s v = weight_read (v_ID v) (notarizeWeight s)"
  "v_Kind v = VoteFinalize \<Longrightarrow> slot_weight s v = weight_read (v_ID v) (finalizeWeight s)"
  "v_Kind v = VoteSkip \<Longrightarrow> slot_weight s v = skipWeight s"
  by (simp_all add: slot_weight_def)

lemma slot_weight_cong:
  "notarizeWeight t = notarizeWeight s \<Longrightarrow> finalizeWeight t = finalizeWeight s \<Longrightarrow>
     skipWeight t = skipWeight s \<Longrightarrow> slot_weight t = slot_weight s"
  by (rule ext) (simp add: slot_weight_def split: voteKind.split)

lemma set_fields [simp]:
  "votes (set_cert k c s) = votes s" "votes (set_saving k b s) = votes s"
  "availableBase (set_cert k c s) = availableBase s" "availableBase (set_saving k b s) = availableBase s"
  by (cases k; simp add: set_cert_def set_saving_def)+

lemma set_weight [simp]:
  "slot_weight (set_cert k c s) = slot_weight s" "slot_weight (set_saving k b s) = slot_weight s"
  by (rule slot_weight_cong; cases k; simp add: set_cert_def set_saving_def)+

lemma update_weight [simp]:
  "slot_weight (s\<lparr>votes := x\<rparr>) = slot_weight s" "slot_weight (s\<lparr>availableBase := y\<rparr>) = slot_weight s"
  by (rule slot_weight_cong; simp)+

lemma update_cert [simp]:
  "certByKind l (s\<lparr>votes := x\<rparr>) = certByKind l s" "certByKind l (s\<lparr>availableBase := y\<rparr>) = certByKind l s"
  by (cases l; simp)+

lemma addAvailableBase_fields [simp]:
  "votes (addAvailableBase p s) = votes s" "certByKind k (addAvailableBase p s) = certByKind k s"
  "slot_weight (addAvailableBase p s) = slot_weight s"
  by (simp_all add: addAvailableBase_def split: option.split)

lemma add_weight_fields [simp]:
  "votes (snd (add_weight w v s)) = votes s" "certByKind k (snd (add_weight w v s)) = certByKind k s"
  "availableBase (snd (add_weight w v s)) = availableBase s"
  by (cases "v_Kind v"; cases k; simp add: add_weight_def Let_def)+

lemma weight_read_put [simp]:
  "weight_read k (map_put k' w m) = (if k = k' then w else weight_read k m)"
  by (simp add: weight_read_def)

lemma add_weight_result: "fst (add_weight w v s) = slot_weight s v + w"
  by (cases "v_Kind v") (simp_all add: add_weight_def slot_weight_def Let_def)

lemma slot_weight_add:
  assumes "vote_wf u" and "vote_wf v" and "vote_Slot u = vote_Slot v"
  shows "slot_weight (snd (add_weight w v s)) u = (if u = v then slot_weight s v + w else slot_weight s u)"
proof (cases "v_Kind u = v_Kind v")
  case True
  then have "u = v \<longleftrightarrow> v_ID u = v_ID v" by (cases u; cases v) auto
  moreover have "u = v" if "v_Kind v = VoteSkip" using kind_eq_skip [of u v] assms True that by simp
  ultimately show ?thesis
    using True by (cases "v_Kind v") (simp_all add: add_weight_def slot_weight_def Let_def)
next
  case False
  then have "u \<noteq> v" by auto
  with False show ?thesis
    by (cases "v_Kind v"; cases "v_Kind u") (simp_all add: add_weight_def slot_weight_def Let_def)
qed

lemma poolSlot_ok_new: "poolSlot_ok vs good valid i (newPoolSlot (length vs))"
proof -
  have "slot_weight (newPoolSlot n) v = 0" for n v
    by (simp add: slot_weight_def newPoolSlot_def weight_read_def split: voteKind.split)
  moreover have "direct_weight vs (replicate n no_votes) v = 0" for n v
    by (simp add: direct_weight_def direct_vote_def)
  moreover have "fst (certByKind k (newPoolSlot n)) = None" for k n
    by (cases k) (simp_all add: newPoolSlot_def)
  ultimately show ?thesis
    by (simp add: poolSlot_ok_def votes_ok_def weights_ok_def certs_ok_def)
      (simp add: newPoolSlot_def)
qed

lemma poolSlot_ok_cong:
  assumes "poolSlot_ok vs good valid i s" and "votes t = votes s" and "slot_weight t = slot_weight s"
    and "\<And>k c. fst (certByKind k t) = Some c \<Longrightarrow> fst (certByKind k s) = Some c \<or> cert_for valid i k c"
  shows "poolSlot_ok vs good valid i t"
  using assms unfolding poolSlot_ok_def weights_ok_def certs_ok_def by metis

lemma votes_ok_update:
  assumes "votes_ok vs good i vvs" and "j < length vs" and "vv_ok i x"
    and "\<And>k p. byKind k x = Some p \<Longrightarrow> good j (p_vote p) (p_sig p)"
  shows "votes_ok vs good i (vvs[j := x])"
  using assms by (auto simp: votes_ok_def nth_list_update)

lemma votes_ok_set:
  assumes "votes_ok vs good i vvs" and "j < length vs" and "vv_ok i (set_byKind k (Some p) (vvs ! j))"
    and "good j (p_vote p) (p_sig p)"
  shows "votes_ok vs good i (vvs[j := set_byKind k (Some p) (vvs ! j)])"
proof (rule votes_ok_update [OF assms(1-3)])
  fix l q assume "byKind l (set_byKind k (Some p) (vvs ! j)) = Some q"
  then show "good j (p_vote q) (p_sig q)"
    using votes_ok_nth(2) [OF assms(1,2), of l q] assms(4) by (auto split: if_splits)
qed

lemma direct_vote_set:
  assumes "byKind (v_Kind (p_vote p)) vv = None"
  shows "direct_vote v (set_byKind (v_Kind (p_vote p)) (Some p) vv) \<longleftrightarrow>
    direct_vote v vv \<or> \<not> p_fromCert p \<and> p_vote p = v"
  using assms by (auto simp: direct_vote_def)

lemma direct_weight_update:
  assumes "j < length vvs" and "byKind (v_Kind (p_vote p)) (vvs ! j) = None"
  shows "direct_weight vs (vvs[j := set_byKind (v_Kind (p_vote p)) (Some p) (vvs ! j)]) v =
    direct_weight vs vvs v + (if \<not> p_fromCert p \<and> p_vote p = v then Weight (vs ! j) else 0)"
proof -
  let ?g = "\<lambda>i. if direct_vote v (vvs ! i) then Weight (vs ! i) else 0"
  let ?x = "set_byKind (v_Kind (p_vote p)) (Some p) (vvs ! j)"
  let ?h = "\<lambda>i. if direct_vote v (vvs[j := ?x] ! i) then Weight (vs ! i) else 0"
  have none: "\<not> direct_vote v (vvs ! j)" if "p_vote p = v"
    using assms(2) that by (simp add: direct_vote_def)
  have "?h j = ?g j + (if \<not> p_fromCert p \<and> p_vote p = v then Weight (vs ! j) else 0)"
    using assms none by (auto simp: direct_vote_set [OF assms(2)])
  moreover have "sum ?h ({..< length vvs} - {j}) = sum ?g ({..< length vvs} - {j})"
    by (rule sum.cong) auto
  moreover have "j \<in> {..< length vvs}" using assms(1) by simp
  ultimately show ?thesis
    unfolding direct_weight_def length_list_update
    by (simp add: sum.remove [of "{..< length vvs}" j] algebra_simps)
qed

text \<open>A vote that is applied directly keeps the invariant, with its weight counted once.\<close>

lemma poolSlot_ok_apply:
  assumes "poolSlot_ok vs good valid i s" and "j < length vs" and "\<not> p_fromCert p"
    and "vote_Slot (p_vote p) = i" and "vote_wf (p_vote p)" and "good j (p_vote p) (p_sig p)"
    and add: "vv_add p (votes s ! j) = (True, ev, vv)"
  defines "t \<equiv> s\<lparr>votes := (votes s)[j := vv]\<rparr>"
  shows "poolSlot_ok vs good valid i (snd (add_weight (Weight (vs ! j)) (p_vote p) t))"
    and "fst (add_weight (Weight (vs ! j)) (p_vote p) t) = direct_weight vs (votes t) (p_vote p)"
proof -
  have none: "byKind (v_Kind (p_vote p)) (votes s ! j) = None"
    and vv: "vv = set_byKind (v_Kind (p_vote p)) (Some p) (votes s ! j)"
    using add by (cases rule: vv_add_cases [of p "votes s ! j"]; auto)+
  have ok: "votes_ok vs good i (votes s)" "weights_ok vs i s" "certs_ok valid i s"
    using assms(1) by (auto simp: poolSlot_ok_def)
  have len: "length (votes s) = length vs" using ok(1) by (simp add: votes_ok_def)
  have "vv_ok i vv" using vv_add_ok [of i "votes s ! j" p] votes_ok_nth(1) [OF ok(1) assms(2)] assms(4,5) add by simp
  then have votes_t: "votes_ok vs good i (votes t)"
    using votes_ok_set [OF ok(1) assms(2) _ assms(6)] by (simp add: t_def vv)
  have w: "direct_weight vs (votes t) u = direct_weight vs (votes s) u + (if p_vote p = u then Weight (vs ! j) else 0)" for u
    using direct_weight_update [of j "votes s" p vs u] none assms(2,3) len by (simp add: t_def vv)
  have sw: "slot_weight t u = slot_weight s u" for u
    by (simp add: t_def)
  have new: "slot_weight s u = direct_weight vs (votes s) u" if "vote_wf u" "vote_Slot u = i" for u
    using ok(2) that by (simp add: weights_ok_def)
  show "fst (add_weight (Weight (vs ! j)) (p_vote p) t) = direct_weight vs (votes t) (p_vote p)"
    using w [of "p_vote p"] new [of "p_vote p"] assms(4,5) by (simp add: add_weight_result sw)
  have "weights_ok vs i (snd (add_weight (Weight (vs ! j)) (p_vote p) t))"
    unfolding weights_ok_def
    using slot_weight_add [of _ "p_vote p"] assms(4,5) w new sw by auto
  moreover have "certs_ok valid i (snd (add_weight (Weight (vs ! j)) (p_vote p) t))"
  proof -
    have "certByKind k t = certByKind k s" for k by (simp add: t_def)
    then show ?thesis using ok(3) by (simp add: certs_ok_def)
  qed
  ultimately show "poolSlot_ok vs good valid i (snd (add_weight (Weight (vs ! j)) (p_vote p) t))"
    using votes_t by (simp add: poolSlot_ok_def)
qed

text \<open>A vote extracted from a certificate is recorded without being counted.\<close>

lemma poolSlot_ok_extract:
  assumes "poolSlot_ok vs good valid i s" and "j < length vs" and "p_fromCert p"
    and "vote_Slot (p_vote p) = i" and "vote_wf (p_vote p)" and "good j (p_vote p) (p_sig p)"
  shows "poolSlot_ok vs good valid i (s\<lparr>votes := (votes s)[j := snd (snd (vv_add p (votes s ! j)))]\<rparr>)"
    (is "poolSlot_ok _ _ _ _ ?t")
proof (cases rule: vv_add_cases [of p "votes s ! j"])
  case applied
  have ok: "votes_ok vs good i (votes s)" "weights_ok vs i s" "certs_ok valid i s"
    using assms(1) by (auto simp: poolSlot_ok_def)
  have len: "length (votes s) = length vs" using ok(1) by (simp add: votes_ok_def)
  have "vv_ok i (snd (snd (vv_add p (votes s ! j))))"
    using vv_add_ok [of i "votes s ! j" p] votes_ok_nth(1) [OF ok(1) assms(2)] assms(4,5) by simp
  then have "votes_ok vs good i (votes ?t)"
    using votes_ok_set [OF ok(1) assms(2) _ assms(6)] applied(1) by simp
  moreover have "direct_weight vs (votes ?t) v = direct_weight vs (votes s) v" for v
    using direct_weight_update [of j "votes s" p vs v] applied assms(2,3) len by simp
  then have "weights_ok vs i ?t"
    using ok(2) by (simp add: weights_ok_def)
  moreover have "certByKind k ?t = certByKind k s" for k by simp
  then have "certs_ok valid i ?t" using ok(3) by (simp add: certs_ok_def)
  ultimately show ?thesis by (simp add: poolSlot_ok_def)
qed (use assms(1) in simp_all)

section \<open>Certificates built from a slot\<close>

lemma build_signature_signers:
  assumes "length vvs \<le> 2 ^ 32" and "i < length vvs"
  shows "map sig_index (build_signature v vvs i) = (if direct_vote v (vvs ! i) then [i] else [])"
proof -
  have "unat (of_nat i :: u32) = i"
    using assms by (simp add: unat_of_nat take_bit_nat_eq_self)
  then show ?thesis by (auto simp: build_signature_def direct_vote_def split: option.split)
qed

lemma signers_build:
  assumes "length (votes s) \<le> 2 ^ 32"
  shows "signers (buildCertificate s v) = filter (\<lambda>i. direct_vote v (votes s ! i)) [0 ..< length (votes s)]"
proof -
  have "map sig_index (concat (map (build_signature v (votes s)) xs)) =
      filter (\<lambda>i. direct_vote v (votes s ! i)) xs" if "\<forall>i \<in> set xs. i < length (votes s)" for xs
    using that by (induction xs) (auto simp: build_signature_signers [OF assms])
  then show ?thesis by (simp add: signers_def buildCertificate_def)
qed

lemma sum_list_filter_upt:
  "sum_list (map f (filter P [0 ..< n])) = (\<Sum>i < n. if P i then f i else (0 :: 'a::comm_monoid_add))"
  by (induction n) auto

lemma cert_Vote_build [simp]: "cert_Vote (buildCertificate s v) = v"
  by (simp add: buildCertificate_def)

text \<open>
  The claim of the comment on \<open>Engine.seal\<close>: once the counted weight of a vote reaches the
  threshold, the certificate assembled from the recorded signatures verifies.
\<close>

lemma buildCertificate_valid:
  assumes ok: "poolSlot_ok vs (\<lambda>i v sig. length sig = ed25519_SignatureSize
      \<and> ed25519_Verify E (PublicKey (vs ! i)) (vote_payload E sid v) sig) valid i s"
    and "length vs \<le> 2 ^ 32" and "t \<le> direct_weight vs (votes s) v"
  shows "valid_certificate E vs t (vote_payload E sid v) (buildCertificate s v)"
proof -
  have votes: "votes_ok vs (\<lambda>i v sig. length sig = ed25519_SignatureSize
      \<and> ed25519_Verify E (PublicKey (vs ! i)) (vote_payload E sid v) sig) i (votes s)"
    using ok by (simp add: poolSlot_ok_def)
  then have len: "length (votes s) = length vs" by (simp add: votes_ok_def)
  with assms(2) have small: "length (votes s) \<le> 2 ^ 32" by simp
  have "sum_list (map (\<lambda>i. Weight (vs ! i)) (signers (buildCertificate s v))) = direct_weight vs (votes s) v"
    by (simp only: signers_build [OF small] sum_list_filter_upt direct_weight_def)
  moreover have "verify_signature E vs (vote_payload E sid v) x"
    if x: "x \<in> set (cert_Signatures (buildCertificate s v))" for x
  proof -
    from x obtain j where j: "j < length vs" "x \<in> set (build_signature v (votes s) j)"
      by (auto simp: buildCertificate_def len)
    then obtain p where p: "byKind (v_Kind v) (votes s ! j) = Some p" "p_vote p = v"
      "x = \<lparr>vs_ValidatorIndex = of_nat j, vs_Signature = p_sig p\<rparr>"
      by (cases "byKind (v_Kind v) (votes s ! j)") (auto simp: build_signature_def split: if_splits)
    have "unat (of_nat j :: u32) = j"
      using j(1) assms(2) by (simp add: unat_of_nat take_bit_nat_eq_self)
    then show ?thesis
      using votes_ok_nth(2) [OF votes j(1) p(1)] p by (simp add: verify_signature_def)
  qed
  ultimately show ?thesis
    using assms(3) by (auto simp: valid_certificate_def signers_build [OF small] len)
qed

end
