(* ===== verification/EngineState.thy ===== *)
theory EngineState
  imports SlotMap PoolSlot
begin

text \<open>
  The state of the Simplex engine (\<open>Engine\<close>, \<open>voterState\<close>, \<open>drainState\<close>, \<open>Stats\<close> of
  \<open>engine.go\<close>, \<open>voter.go\<close>, \<open>pool.go\<close>) and the operations every part uses: the output log,
  fatal errors, deferred notifications, bans, the payload cache and the timing of own
  candidates.

  The engine runs under \<open>Runner\<close>: a journal write or a candidate service call is recorded in
  \<open>inflight\<close> and completes later, in any order, as an input of its own. What the engine does
  to the outside (journal calls, signatures, sends, hooks, traces) is appended to \<open>outs\<close>.
  Deferred closures (\<open>Engine.enqueue\<close>) are the constructors of \<open>notice\<close>. The clock reading is
  constant during one input. A nil slot that the code would dereference is the error
  \<open>ENilSlot\<close>; a Go panic ends the process, the model fails closed.
\<close>

section \<open>Configuration\<close>

record config =
  cf_ext :: ext
  certs :: certificateVerifier
  totalWeight :: u64
  localIndex :: int
  spw :: u32
  shardPfxLen :: u32
  maxCertWire :: nat
  schedule :: "u32 \<Rightarrow> u32"
  tracing :: bool
  workchain :: u32
  shard :: u64
  ccSeqno :: u32

definition ObserverIndex :: int where
  "ObserverIndex = - 1"

abbreviation sessionID :: "config \<Rightarrow> h256" where
  "sessionID C \<equiv> cb_sessionID (cv_binding (certs C))"

abbreviation validators :: "config \<Rightarrow> validator list" where
  "validators C \<equiv> cv_validators (certs C)"

abbreviation threshold :: "config \<Rightarrow> u64" where
  "threshold C \<equiv> cv_threshold (certs C)"

definition localWeight :: "config \<Rightarrow> u64" where
  "localWeight C = (if localIndex C < 0 then 0 else Weight (validators C ! nat (localIndex C)))"

section \<open>State\<close>

record voterSlot =
  vs_pending :: "candidate option"
  votedNotar :: "candidateID option"
  vs_notarCert :: "candidateID option"
  votedSkip :: bool
  votedFinal :: bool
  storeInFlight :: bool
  stored :: bool
  validationInFlight :: bool
  validated :: bool

definition newVoterSlot :: voterSlot where
  "newVoterSlot = \<lparr>vs_pending = None, votedNotar = None, vs_notarCert = None, votedSkip = False,
     votedFinal = False, storeInFlight = False, stored = False, validationInFlight = False,
     validated = False\<rparr>"

record voterState =
  v_slots :: "voterSlot slotMap"
  timeoutBase :: gotime
  timeoutSlot :: u32
  alarmAt :: gotime
  alarmArmed :: bool
  firstBlockTimeout :: duration
  previousWindowHadSkip :: bool
  currentWindow :: u32

definition newVoterState :: "duration \<Rightarrow> voterState" where
  "newVoterState t = \<lparr>v_slots = newSlotMap, timeoutBase = 0, timeoutSlot = 0, alarmAt = 0,
     alarmArmed = False, firstBlockTimeout = t, previousWindowHadSkip = False, currentWindow = 0\<rparr>"

record drainState =
  d_msgs :: "bytes list"
  d_idx :: nat
  d_quota :: float64
  d_quotaTime :: gotime
  d_nextAt :: gotime
  d_finalCertAtStart :: "certificate option"

record ownCandidateTiming =
  acceptedAt :: gotime
  firstVoteAt :: gotime
  firstVoter :: u32

record stats =
  VotesApplied :: u64
  OwnVotesCast :: u64
  MessagesDropped :: u64
  CertificatesBuilt :: u64
  CertificatesStored :: u64
  CandidatesAccepted :: u64
  CandidatesRejected :: u64
  CandidatesAbstained :: u64
  SlotsFinalized :: u64
  Misbehaviors :: u64
  Bans :: u64
  Standstills :: u64
  CertificatesByKind :: "voteKind \<Rightarrow> u64"
  SignaturesByKind :: "voteKind \<Rightarrow> u64"
  st_Slot :: u32
  FinalizedSlot :: u32
  HasFinalized :: bool
  LastFinalizedAt :: gotime
  st_FirstBlockTimeout :: duration
  LastSignedSlot :: "u32 list"

definition zeroStats :: stats where
  "zeroStats = \<lparr>VotesApplied = 0, OwnVotesCast = 0, MessagesDropped = 0, CertificatesBuilt = 0,
     CertificatesStored = 0, CandidatesAccepted = 0, CandidatesRejected = 0, CandidatesAbstained = 0,
     SlotsFinalized = 0, Misbehaviors = 0, Bans = 0, Standstills = 0,
     CertificatesByKind = (\<lambda>_. 0), SignaturesByKind = (\<lambda>_. 0), st_Slot = 0, FinalizedSlot = 0,
     HasFinalized = False, LastFinalizedAt = 0, st_FirstBlockTimeout = 0, LastSignedSlot = []\<rparr>"

record pendingVote =
  pv_src :: h256
  pv_idx :: u32
  pv_vote :: vote
  pv_sig :: bytes
  pv_payload :: bytes
  pv_ok :: bool

datatype waitOutcome = WaitOk | WaitMisbehavior misbehavior | WaitError

text \<open>Deferred notifications, writes in flight and the output log.\<close>

datatype notice =
    NNotarized candidateID sealed
  | NVoterNotarization candidateID
  | NFinalized candidateID sealed
  | NVoterFinalization candidateID
  | NHandleWindow window
  | NMisbehavior u32 misbehavior
  | NFatal simplexErr
  | NStoreCandidate candidate
  | NParentWaitDone candidate waitOutcome
  | NValidateCandidate candidate

datatype completion =
    CVote vote
  | CCert sealed
  | CWindow u32
  | CStore candidateID
  | CValidate candidateID

datatype traceEvent =
    TraceSessionStarted u32 u64 u32 int nat u64 u64 u32
  | TraceVoted vote
  | TraceCertObserved vote
  | TraceCandidateReceived candidateID parentID "blockIDExt option"

datatype sending =
    ToAll bytes
  | ToValidators bytes
  | ToRandom u32 bytes

datatype journalCall =
    SaveOurVote vote
  | SaveCertificate certificate
  | SaveFirstNonAnnouncedWindow u32

datatype hookCall =
    HNotarized candidateID sealed
  | HFinalized candidateID sealed
  | HWindow window
  | HMisbehavior u32 misbehavior
  | HFatal simplexErr
  | HStore candidate
  | HValidate candidate

datatype out =
    OJournal journalCall
  | OSign vote
  | OSend sending
  | OHook hookCall
  | OTrace gotime traceEvent
  | OObtained certificate

record engine =
  e_params :: params
  started :: bool
  stopped :: bool
  fatalErr :: "simplexErr option"
  e_slots :: "poolSlot slotMap"
  now :: u32
  firstNonAnnouncedWindow :: u32
  lastFinalized :: parentID
  lastFinalCert :: "certificate option"
  skipRuns :: sortedU32
  parentWaits :: "candidate list"
  suppressCertBroadcast :: bool
  seenBroadcasts :: "(u32 \<times> h256) list"
  bans :: "(h256 \<times> gotime) list"
  standstillAt :: gotime
  drain :: "drainState option"
  voter :: "voterState option"
  payloadCache :: "(voteKind \<times> (vote \<times> bytes)) list"
  pending :: "notice list"
  pendingVerify :: "pendingVote list"
  ownCandidates :: "(candidateID \<times> ownCandidateTiming) list"
  e_stats :: stats
  clock :: gotime
  inflight :: "completion list"
  outs :: "out list"

section \<open>Shared operations\<close>

definition emit :: "out \<Rightarrow> engine \<Rightarrow> engine" where
  "emit x e = e\<lparr>outs := outs e @ [x]\<rparr>"

definition trace :: "config \<Rightarrow> traceEvent \<Rightarrow> engine \<Rightarrow> engine" where
  "trace C ev e = (if tracing C then emit (OTrace (clock e) ev) e else e)"

definition failed :: "engine \<Rightarrow> bool" where
  "failed e \<longleftrightarrow> fatalErr e \<noteq> None \<or> stopped e"

definition enqueue :: "notice \<Rightarrow> engine \<Rightarrow> engine" where
  "enqueue f e = e\<lparr>pending := pending e @ [f]\<rparr>"

definition fatal :: "simplexErr \<Rightarrow> engine \<Rightarrow> engine" where
  "fatal err e =
     (if failed e then e
      else enqueue (NFatal err) (e\<lparr>fatalErr := Some err, pending := [], drain := None\<rparr>))"

text \<open>A call whose completion comes back later.\<close>

definition begin_async :: "completion \<Rightarrow> engine \<Rightarrow> engine" where
  "begin_async c e = e\<lparr>inflight := inflight e @ [c]\<rparr>"

definition count :: "(stats \<Rightarrow> stats) \<Rightarrow> engine \<Rightarrow> engine" where
  "count f e = e\<lparr>e_stats := f (e_stats e)\<rparr>"

definition reportMisbehavior :: "u32 \<Rightarrow> misbehavior \<Rightarrow> engine \<Rightarrow> engine" where
  "reportMisbehavior idx m e =
     enqueue (NMisbehavior idx m) (count (\<lambda>s. s\<lparr>Misbehaviors := Misbehaviors s + 1\<rparr>) e)"

text \<open>\<open>e.slots.at(i)\<close>, and the write through the returned pointer.\<close>

definition at_slot :: "config \<Rightarrow> u32 \<Rightarrow> engine \<Rightarrow> poolSlot option \<times> engine" where
  "at_slot C i e =
     (let (r, m) = slot_at (newPoolSlot (length (validators C))) i (e_slots e)
      in (r, e\<lparr>e_slots := m\<rparr>))"

definition put_pool_slot :: "u32 \<Rightarrow> poolSlot \<Rightarrow> engine \<Rightarrow> engine" where
  "put_pool_slot i s e = e\<lparr>e_slots := put_slot i s (e_slots e)\<rparr>"

definition votePayload :: "config \<Rightarrow> vote \<Rightarrow> engine \<Rightarrow> bytes \<times> engine" where
  "votePayload C v e =
     (case map_of (payloadCache e) (v_Kind v) of
        Some (w, b) \<Rightarrow>
          if w = v then (b, e)
          else let b' = DataToSign (cf_ext C) (sessionID C) (VoteBytes (cf_ext C) v)
               in (b', e\<lparr>payloadCache := map_put (v_Kind v) (v, b') (payloadCache e)\<rparr>)
      | None \<Rightarrow>
          let b' = DataToSign (cf_ext C) (sessionID C) (VoteBytes (cf_ext C) v)
          in (b', e\<lparr>payloadCache := map_put (v_Kind v) (v, b') (payloadCache e)\<rparr>))"

definition ban :: "h256 \<Rightarrow> engine \<Rightarrow> engine" where
  "ban peer e =
     (let e' = count (\<lambda>s. s\<lparr>Bans := Bans s + 1\<rparr>) e
      in e'\<lparr>bans := map_put peer (clock e' + BadSignatureBanDuration (e_params e')) (bans e')\<rparr>)"

definition isBanned :: "h256 \<Rightarrow> engine \<Rightarrow> bool \<times> engine" where
  "isBanned peer e =
     (case map_of (bans e) peer of
        None \<Rightarrow> (False, e)
      | Some until \<Rightarrow>
          if clock e > until then (False, e\<lparr>bans := map_del peer (bans e)\<rparr>) else (True, e))"

definition drop_message :: "engine \<Rightarrow> engine" where
  "drop_message e = count (\<lambda>s. s\<lparr>MessagesDropped := MessagesDropped s + 1\<rparr>) e"

section \<open>Timing of own candidates\<close>

definition ownCandidateTimingLimit :: nat where
  "ownCandidateTimingLimit = 64"

text \<open>The key with the lowest slot; Go's map order is unspecified, ties go to the first.\<close>

fun oldest_from :: "candidateID \<Rightarrow> candidateID list \<Rightarrow> candidateID" where
  "oldest_from best [] = best"
| "oldest_from best (k # ks) = oldest_from (if cid_Slot k < cid_Slot best then k else best) ks"

definition noteOwnCandidate :: "candidateID \<Rightarrow> engine \<Rightarrow> engine" where
  "noteOwnCandidate i e =
     (let m = ownCandidates e;
          m' = (if length m \<ge> ownCandidateTimingLimit
                then map_del (case map fst m of k # ks \<Rightarrow> oldest_from k ks | [] \<Rightarrow> CandidateID 0 0) m
                else m)
      in e\<lparr>ownCandidates :=
             map_put i \<lparr>acceptedAt = clock e, firstVoteAt = 0, firstVoter = 0\<rparr> m'\<rparr>)"

definition noteOwnCandidateVote :: "config \<Rightarrow> u32 \<Rightarrow> vote \<Rightarrow> engine \<Rightarrow> engine" where
  "noteOwnCandidateVote C idx v e =
     (if v_Kind v \<noteq> VoteNotarize \<or> int (unat idx) = localIndex C \<or> length (ownCandidates e) = 0 then e
      else case map_of (ownCandidates e) (v_ID v) of
        None \<Rightarrow> e
      | Some t \<Rightarrow>
          if firstVoteAt t \<noteq> 0 then e
          else e\<lparr>ownCandidates := map_put (v_ID v)
                   (t\<lparr>firstVoteAt := clock e, firstVoter := idx\<rparr>) (ownCandidates e)\<rparr>)"

text \<open>The log line it writes is not part of the model.\<close>

definition reportOwnCandidateNotarized :: "certificate \<Rightarrow> engine \<Rightarrow> engine" where
  "reportOwnCandidateNotarized cert e =
     (if v_Kind (cert_Vote cert) \<noteq> VoteNotarize \<or> length (ownCandidates e) = 0 then e
      else case map_of (ownCandidates e) (v_ID (cert_Vote cert)) of
        None \<Rightarrow> e
      | Some t \<Rightarrow> e\<lparr>ownCandidates := map_del (v_ID (cert_Vote cert)) (ownCandidates e)\<rparr>)"

end
