(* ===== verification/EnginePool.thy ===== *)
theory EnginePool
  imports EngineState
begin

text \<open>
  The pool part of the engine, \<open>service/validator/simplex/pool.go\<close>, with the vote casting of
  \<open>engine.go\<close>: vote application and certificate assembly, parent waits, certificate
  transitions, advancement of the present slot. The operations are in call order.
\<close>

section \<open>Votes and certificate assembly\<close>

definition handleCertificate :: "config \<Rightarrow> sealed \<Rightarrow> engine \<Rightarrow> engine" where
  "handleCertificate C vc e =
     (let v = cert_Vote (s_cert vc)
      in case at_slot C (vote_Slot v) e of
           (None, e1) \<Rightarrow> e1
         | (Some s, e1) \<Rightarrow>
             if \<not> needs s v then e1
             else begin_async (CCert vc)
                    (emit (OJournal (SaveCertificate (s_cert vc)))
                      (put_pool_slot (vote_Slot v) (set_saving (v_Kind v) True s) e1)))"

definition onVoteApplied :: "config \<Rightarrow> u32 \<Rightarrow> vote \<Rightarrow> poolSlot \<Rightarrow> engine \<Rightarrow> engine" where
  "onVoteApplied C idx v s e =
     (let (newWeight, s') = add_weight (Weight (validators C ! unat idx)) v s;
          e1 = put_pool_slot (vote_Slot v) s' e
      in if newWeight \<ge> threshold C \<and> \<not> willBe s' (v_Kind v)
         then handleCertificate C (sealCertificate (buildCertificate s' v) (cv_binding (certs C)))
                (count (\<lambda>st. st\<lparr>CertificatesBuilt := CertificatesBuilt st + 1\<rparr>) e1)
         else e1)"

definition applyVote :: "config \<Rightarrow> u32 \<Rightarrow> vote \<Rightarrow> bytes \<Rightarrow> bool \<Rightarrow> engine \<Rightarrow> bool \<times> engine" where
  "applyVote C idx v sig tolerateConflicts e =
     (case at_slot C (vote_Slot v) e of
        (None, e1) \<Rightarrow> (False, e1)
      | (Some s, e1) \<Rightarrow>
          (let p = \<lparr>p_fromCert = False, p_vote = v, p_sig = sig, p_cert = None\<rparr>;
               (applied, ev, vv) = vv_add p (votes s ! unat idx);
               s1 = s\<lparr>votes := (votes s)[unat idx := vv]\<rparr>;
               e2 = put_pool_slot (vote_Slot v) s1 e1
           in case ev of
                Some c \<Rightarrow>
                  if int (unat idx) = localIndex C \<and> \<not> tolerateConflicts
                  then (False, fatal (EConsensus (EConflictingOwnVotes v)) e2)
                  else (False, reportMisbehavior idx (conflict_misbehavior (cf_ext C) idx c) e2)
              | None \<Rightarrow>
                  if \<not> applied then (False, e2)
                  else (True, onVoteApplied C idx v s1 (noteOwnCandidateVote C idx v e2))))"

definition finishVoteCast :: "config \<Rightarrow> vote \<Rightarrow> bool \<Rightarrow> engine \<Rightarrow> engine" where
  "finishVoteCast C v replay e =
     (if voter e = None then e
      else
        let (payload, e1) = votePayload C v e;
            e2 = emit (OSign v) e1
        in case signer_Sign (cf_ext C) payload of
             Inl err \<Rightarrow> fatal (ESigning v err) e2
           | Inr sig \<Rightarrow>
               (let idx = of_int (localIndex C) :: u32;
                    wire = SignedVote_Serialize (cf_ext C)
                      \<lparr>sv_ValidatorIndex = idx, sv_Vote = v, sv_Signature = sig\<rparr>;
                    e3 = count (\<lambda>s. s\<lparr>OwnVotesCast := OwnVotesCast s + 1\<rparr>) e2;
                    (applied, e4) = applyVote C idx v sig replay e3
                in if applied \<and> \<not> replay then emit (OSend (ToAll wire)) e4 else e4))"

definition castVote :: "config \<Rightarrow> vote \<Rightarrow> bool \<Rightarrow> engine \<Rightarrow> engine" where
  "castVote C v replay e =
     (if failed e \<or> voter e = None then e
      else
        let e1 = trace C (TraceVoted v) e
        in if replay then finishVoteCast C v replay e1
           else begin_async (CVote v) (emit (OJournal (SaveOurVote v)) e1))"

section \<open>Parent waits\<close>

definition conflictingCandidateAndCert :: "config \<Rightarrow> candidate \<Rightarrow> certificate option \<Rightarrow> misbehavior" where
  "conflictingCandidateAndCert C c cert =
     \<lparr>m_Kind = MisbehaviorConflictingCandidateAndCertificate,
      m_Proof1 = HashDataBytes (cf_ext C) c,
      m_Proof2 = (case cert of Some x \<Rightarrow> Certificate_Serialize (cf_ext C) x | None \<Rightarrow> [])\<rparr>"

definition next_after_parent :: "candidate \<Rightarrow> u32" where
  "next_after_parent cand =
     (if Exists (c_Parent cand) then cid_Slot (pid_ID (c_Parent cand)) + 1 else 0)"

text \<open>The tail of \<open>evaluateParentWait\<close>: the slots between the parent and the candidate are skipped.\<close>

definition wait_for_skips :: "config \<Rightarrow> candidate \<Rightarrow> engine \<Rightarrow> bool \<times> waitOutcome \<times> engine" where
  "wait_for_skips C cand e =
     (let nxt = next_after_parent cand
      in if nxt = cid_Slot (c_ID cand) then (True, WaitOk, e)
         else case at_slot C nxt e of
           (None, e1) \<Rightarrow> (True, WaitError, fatal (EConsensus (ENilSlot nxt)) e1)
         | (Some s, e1) \<Rightarrow>
             if skipCert s = None then (False, WaitOk, e1)
             else case lowerBound nxt (skipRuns e1) of
               None \<Rightarrow> (True, WaitError, fatal (EConsensus (ENoRunEnd nxt)) e1)
             | Some runEnd \<Rightarrow>
                 if runEnd \<ge> cid_Slot (c_ID cand) then (True, WaitOk, e1) else (False, WaitOk, e1))"

definition evaluateParentWait :: "config \<Rightarrow> candidate \<Rightarrow> engine \<Rightarrow> bool \<times> waitOutcome \<times> engine" where
  "evaluateParentWait C cand e =
     (let i = c_ID cand; parent = c_Parent cand; nxt = next_after_parent cand;
          horizon = firstNonFinalized (e_slots e)
      in if cid_Slot i < horizon then (True, WaitError, e)
         else if nxt < horizon
         then (True, WaitMisbehavior (conflictingCandidateAndCert C cand (lastFinalCert e)), e)
         else case at_slot C (cid_Slot i) e of
           (None, e1) \<Rightarrow> (True, WaitError, fatal (EConsensus (ENilSlot (cid_Slot i))) e1)
         | (Some s, e1) \<Rightarrow>
             if notarizedBlock s \<noteq> None \<and> notarizedBlock s \<noteq> Some i
             then (True, WaitMisbehavior (conflictingCandidateAndCert C cand (notarCert s)), e1)
             else if nxt = horizon then
               (if lastFinalized e1 \<noteq> parent
                then (True, WaitMisbehavior (conflictingCandidateAndCert C cand (lastFinalCert e1)), e1)
                else wait_for_skips C cand e1)
             else case at_slot C (cid_Slot (pid_ID parent)) e1 of
               (None, e2) \<Rightarrow> (True, WaitError, fatal (EConsensus (ENilSlot (cid_Slot (pid_ID parent)))) e2)
             | (Some ps, e2) \<Rightarrow>
                 if notarCert ps \<noteq> None then
                   (if notarizedBlock ps = None \<or> notarizedBlock ps \<noteq> Some (pid_ID parent)
                    then (True, WaitMisbehavior (conflictingCandidateAndCert C cand (notarCert ps)), e2)
                    else wait_for_skips C cand e2)
                 else (False, WaitOk, e2))"

definition registerParentWait :: "config \<Rightarrow> candidate \<Rightarrow> engine \<Rightarrow> engine" where
  "registerParentWait C c e =
     (case evaluateParentWait C c e of
        (finished, out, e1) \<Rightarrow>
          if finished then enqueue (NParentWaitDone c out) e1
          else e1\<lparr>parentWaits := parentWaits e1 @ [c]\<rparr>)"

text \<open>
  The loop of \<open>resolveParentWaits\<close>: position \<open>i\<close> in the list of waits, a resolved wait is
  replaced by the last one. \<open>evaluateParentWait\<close> does not touch the list.
\<close>

function resolve_waits :: "config \<Rightarrow> nat \<Rightarrow> candidate list \<Rightarrow> engine \<Rightarrow> candidate list \<times> engine" where
  "resolve_waits C i ws e =
     (if i < length ws then
        (case evaluateParentWait C (ws ! i) e of
           (finished, out, e1) \<Rightarrow>
             if \<not> finished then resolve_waits C (i + 1) ws e1
             else resolve_waits C i (butlast (ws[i := last ws]))
                    (enqueue (NParentWaitDone (ws ! i) out) e1))
      else (ws, e))"
  by pat_completeness auto
termination
  by (relation "measure (\<lambda>(C, i, ws, e). length ws - i)") auto

declare resolve_waits.simps [simp del]

definition resolveParentWaits :: "config \<Rightarrow> engine \<Rightarrow> engine" where
  "resolveParentWaits C e =
     (let (ws, e1) = resolve_waits C 0 (parentWaits e) e in e1\<lparr>parentWaits := ws\<rparr>)"

section \<open>The present slot\<close>

definition nextNonSkippedSlotAfter :: "config \<Rightarrow> u32 \<Rightarrow> engine \<Rightarrow> u32 result \<times> engine" where
  "nextNonSkippedSlotAfter C i e =
     (let j = i + 1
      in case at_slot C j e of
           (None, e1) \<Rightarrow> (Inl (EConsensus (ENilSlot j)), e1)
         | (Some s, e1) \<Rightarrow>
             if skipCert s \<noteq> None then
               (case lowerBound j (skipRuns e1) of
                  None \<Rightarrow> (Inl (EConsensus (ENoRunEnd j)), e1)
                | Some end' \<Rightarrow> (Inr end', e1))
             else (Inr j, e1))"

text \<open>\<open>e.slots.at(i).addAvailableBase(p)\<close>.\<close>

definition add_base :: "config \<Rightarrow> u32 \<Rightarrow> parentID \<Rightarrow> engine \<Rightarrow> engine" where
  "add_base C i p e =
     (case at_slot C i e of
        (None, e1) \<Rightarrow> fatal (EConsensus (ENilSlot i)) e1
      | (Some s, e1) \<Rightarrow> put_pool_slot i (addAvailableBase p s) e1)"

text \<open>\<open>voterWindowObserved\<close> of \<open>voter.go\<close>: validator timers of a newly entered window.\<close>

definition voterWindowObserved :: "config \<Rightarrow> u32 \<Rightarrow> gotime \<Rightarrow> params \<Rightarrow> voterState \<Rightarrow> voterState" where
  "voterWindowObserved C startSlot clk ps v =
     (let newWindow = startSlot div spw C;
          v1 = v\<lparr>currentWindow := newWindow\<rparr>;
          fbt = (if previousWindowHadSkip v1 then
                   (let scaled = f64_mul (f64_of_int (firstBlockTimeout v1)) (FirstBlockTimeoutMultiplier ps)
                    in if f64_le (f64_of_int (FirstBlockTimeoutCap ps)) scaled
                       then FirstBlockTimeoutCap ps else f64_to_int64 scaled)
                 else FirstBlockTimeout ps);
          v2 = v1\<lparr>firstBlockTimeout := fbt\<rparr>;
          v3 = (if startSlot mod spw C = 0 then v2\<lparr>previousWindowHadSkip := False\<rparr> else v2)
      in if timeoutSlot v3 \<le> startSlot
         then v3\<lparr>timeoutSlot := startSlot + 1,
                 timeoutBase := clk + firstBlockTimeout v3,
                 alarmAt := clk + firstBlockTimeout v3 + TargetRate ps,
                 alarmArmed := True\<rparr>
         else v3)"

definition windowObserved :: "config \<Rightarrow> u32 \<Rightarrow> parentID \<Rightarrow> engine \<Rightarrow> engine" where
  "windowObserved C startSlot base e =
     (let vo = map_option (voterWindowObserved C startSlot (clock e) (e_params e)) (voter e);
          e1 = e\<lparr>voter := vo\<rparr>;
          fbt = (case vo of Some v \<Rightarrow> firstBlockTimeout v | None \<Rightarrow> FirstBlockTimeout (e_params e));
          windowStart = startSlot - startSlot mod spw C;
          leader = schedule C windowStart
      in enqueue (NHandleWindow
           \<lparr>w_Base = base, w_ObservedSlot = startSlot, w_StartSlot = windowStart,
            w_EndSlot = windowStart + spw C, w_Leader = leader,
            w_LocalLeader = (localIndex C \<ge> 0 \<and> leader = of_int (localIndex C)),
            w_ObservedAt = clock e1, w_FirstBlockTimeout = fbt\<rparr>) e1)"

text \<open>
  The loop of \<open>advancePresent\<close>. Every iteration passes a settled, hence tracked slot, so one
  more iteration than there are tracked slots is enough (\<open>advance_loop_settles\<close>).
\<close>

definition settled :: "poolSlot \<Rightarrow> bool" where
  "settled s \<longleftrightarrow> notarCert s \<noteq> None \<or> skipCert s \<noteq> None"

fun advance_loop :: "nat \<Rightarrow> config \<Rightarrow> engine \<Rightarrow> engine" where
  "advance_loop 0 C e = e"
| "advance_loop (Suc n) C e =
     (case at_slot C (now e) e of
        (None, e1) \<Rightarrow>
          fatal (EConsensus (EPresentBelowHorizon (now e1) (firstNonFinalized (e_slots e1)))) e1
      | (Some s, e1) \<Rightarrow>
          if settled s then advance_loop n C (e1\<lparr>now := now e1 + 1\<rparr>) else e1)"

declare advance_loop.simps [simp del]

definition announce :: "config \<Rightarrow> parentID \<Rightarrow> engine \<Rightarrow> engine" where
  "announce C base e =
     (let e1 = windowObserved C (now e) base e
      in begin_async (CWindow (firstNonAnnouncedWindow e1))
           (emit (OJournal (SaveFirstNonAnnouncedWindow (firstNonAnnouncedWindow e1))) e1))"

text \<open>The base of the present slot is what the window is announced with.\<close>

definition announce_at :: "config \<Rightarrow> engine \<Rightarrow> engine" where
  "announce_at C e =
     (if now e \<noteq> 0 then
        (case at_slot C (now e) e of
           (None, e1) \<Rightarrow> fatal (EConsensus (ENilSlot (now e1))) e1
         | (Some s, e1) \<Rightarrow>
             (case availableBase s of
                None \<Rightarrow> fatal (EConsensus (ENoAvailableBase (now e1))) e1
              | Some b \<Rightarrow> announce C b e1))
      else announce C Genesis e)"

definition advancePresent :: "config \<Rightarrow> engine \<Rightarrow> engine" where
  "advancePresent C e =
     (if \<not> started e \<or> failed e then e
      else
        let e1 = advance_loop (length (slots (e_slots e)) + 1) C e; window = now e1 div spw C
        in if failed e1 then e1
           else if firstNonAnnouncedWindow e1 > window then e1
           else announce_at C (e1\<lparr>firstNonAnnouncedWindow := window + 1\<rparr>))"

section \<open>Certificate transitions\<close>

definition onNotarCertificate :: "config \<Rightarrow> sealed \<Rightarrow> engine \<Rightarrow> engine" where
  "onNotarCertificate C vc e =
     (let i = v_ID (cert_Vote (s_cert vc));
          e1 = enqueue (NNotarized i vc) e;
          e2 = (if voter e1 \<noteq> None then enqueue (NVoterNotarization i) e1 else e1)
      in case nextNonSkippedSlotAfter C (cid_Slot i) e2 of
           (Inl err, e3) \<Rightarrow> fatal err e3
         | (Inr nxt, e3) \<Rightarrow> advancePresent C (add_base C nxt (Parent i) e3))"

definition onSkipCertificate :: "config \<Rightarrow> poolSlot \<Rightarrow> certificate \<Rightarrow> engine \<Rightarrow> engine" where
  "onSkipCertificate C s cert e =
     (let i = vote_Slot (cert_Vote cert)
      in case nextNonSkippedSlotAfter C i e of
           (Inl err, e1) \<Rightarrow> fatal err e1
         | (Inr nxt, e1) \<Rightarrow>
             (let runs = erase i (skipRuns e1);
                  e2 = e1\<lparr>skipRuns := (if nxt = i + 1 then insert_u32 (i + 1) runs else runs)\<rparr>;
                  e3 = (case availableBase s of Some b \<Rightarrow> add_base C nxt b e2 | None \<Rightarrow> e2)
              in advancePresent C e3))"

text \<open>The part of \<open>onFinalCertificate\<close> after the checks: the horizon moves past the slot.\<close>

definition move_horizon :: "candidateID \<Rightarrow> sealed \<Rightarrow> engine \<Rightarrow> engine" where
  "move_horizon i vc e =
     (let e1 = e\<lparr>lastFinalized := Parent i, lastFinalCert := Some (s_cert vc),
                e_slots := notifyFinalized (cid_Slot i) (e_slots e)\<rparr>;
          e2 = count (\<lambda>st. st\<lparr>SlotsFinalized := SlotsFinalized st + 1, LastFinalizedAt := clock e1\<rparr>) e1;
          e3 = enqueue (NFinalized i vc) e2
      in if voter e3 \<noteq> None then enqueue (NVoterFinalization i) e3 else e3)"

definition finalize_slot :: "config \<Rightarrow> candidateID \<Rightarrow> sealed \<Rightarrow> engine \<Rightarrow> engine" where
  "finalize_slot C i vc e =
     (let e1 = move_horizon i vc e;
          e2 = (if now e1 \<le> cid_Slot i then advancePresent C (e1\<lparr>now := cid_Slot i + 1\<rparr>) else e1);
          e3 = e2\<lparr>skipRuns := eraseUpTo (cid_Slot i) (skipRuns e2),
                  seenBroadcasts := filter (\<lambda>(k, b). \<not> k < firstNonFinalized (e_slots e2))
                                      (seenBroadcasts e2)\<rparr>;
          e4 = (if \<not> suppressCertBroadcast e3
                then e3\<lparr>standstillAt := clock e3 + StandstillTimeout (e_params e3)\<rparr> else e3)
      in e4\<lparr>drain := None\<rparr>)"

definition onFinalCertificate :: "config \<Rightarrow> poolSlot \<Rightarrow> sealed \<Rightarrow> engine \<Rightarrow> engine" where
  "onFinalCertificate C s vc e =
     (let i = v_ID (cert_Vote (s_cert vc))
      in if skipCert s \<noteq> None then fatal (EConsensus (EFinalizedAndSkipped (cid_Slot i))) e
         else if notarizedBlock s \<noteq> None \<and> notarizedBlock s \<noteq> Some i
         then fatal (EConsensus (EFinalizedOther i (the (notarizedBlock s)))) e
         else if notarCert s = None then
           (case nextNonSkippedSlotAfter C (cid_Slot i) e of
              (Inl err, e1) \<Rightarrow> fatal err e1
            | (Inr nxt, e1) \<Rightarrow>
                let e2 = add_base C nxt (Parent i) e1
                in if failed e2 then e2 else finalize_slot C i vc e2)
         else finalize_slot C i vc e)"

definition sign_slots :: "config \<Rightarrow> certificate \<Rightarrow> u32 list \<Rightarrow> u32 list" where
  "sign_slots C cert ls =
     foldl (\<lambda>l s. let j = unat (vs_ValidatorIndex s)
                  in if j < length l \<and> vote_Slot (cert_Vote cert) > l ! j
                     then l[j := vote_Slot (cert_Vote cert)] else l)
       (if ls = [] then replicate (length (validators C)) 0 else ls) (cert_Signatures cert)"

text \<open>\<open>storeSavedCertificate\<close> records and gossips the certificate, then runs the typed transition.\<close>

definition record_certificate :: "config \<Rightarrow> poolSlot \<Rightarrow> certificate \<Rightarrow> engine \<Rightarrow> engine" where
  "record_certificate C s1 cert e =
     (let v = cert_Vote cert; k = v_Kind v;
          e1 = put_pool_slot (vote_Slot v) s1 e;
          e2 = count (\<lambda>st. st\<lparr>CertificatesStored := CertificatesStored st + 1,
                 CertificatesByKind := (CertificatesByKind st)(k := CertificatesByKind st k + 1),
                 SignaturesByKind := (SignaturesByKind st)(k := SignaturesByKind st k
                   + of_nat (length (cert_Signatures cert))),
                 LastSignedSlot := sign_slots C cert (LastSignedSlot st)\<rparr>) e1;
          e3 = reportOwnCandidateNotarized cert (emit (OObtained cert) e2)
      in if \<not> suppressCertBroadcast e3
         then trace C (TraceCertObserved v)
                (emit (OSend (ToRandom (CertificateGossipNeighbors (e_params e3))
                  (Certificate_Serialize (cf_ext C) cert))) e3)
         else e3)"

definition apply_certificate :: "config \<Rightarrow> poolSlot \<Rightarrow> sealed \<Rightarrow> engine \<Rightarrow> engine" where
  "apply_certificate C s1 vc e =
     (case v_Kind (cert_Vote (s_cert vc)) of
        VoteNotarize \<Rightarrow> onNotarCertificate C vc e
      | VoteSkip \<Rightarrow> onSkipCertificate C s1 (s_cert vc) e
      | VoteFinalize \<Rightarrow> onFinalCertificate C s1 vc e)"

definition storeSavedCertificate :: "config \<Rightarrow> poolSlot \<Rightarrow> sealed \<Rightarrow> engine \<Rightarrow> engine" where
  "storeSavedCertificate C s vc e =
     (let cert = s_cert vc; v = cert_Vote cert; k = v_Kind v
      in if fst (certByKind k s) \<noteq> None then fatal (EConsensus (EDuplicateCertificate v)) e
         else
           let s1 = set_saving k False (set_cert k (Some cert) s);
               e1 = apply_certificate C s1 vc (record_certificate C s1 cert e)
           in if failed e1 then e1 else resolveParentWaits C e1)"

text \<open>The votes a saved certificate proves, recorded one signature after the other.\<close>

fun extract_votes :: "config \<Rightarrow> certificate \<Rightarrow> voteSignature list \<Rightarrow> poolSlot \<Rightarrow> engine \<Rightarrow> poolSlot \<times> engine" where
  "extract_votes C cert [] s e = (s, e)"
| "extract_votes C cert (x # xs) s e =
     (let j = unat (vs_ValidatorIndex x);
          p = \<lparr>p_fromCert = True, p_vote = cert_Vote cert, p_sig = vs_Signature x, p_cert = Some cert\<rparr>;
          (applied, ev, vv) = vv_add p (votes s ! j);
          s1 = s\<lparr>votes := (votes s)[j := vv]\<rparr>;
          e1 = put_pool_slot (vote_Slot (cert_Vote cert)) s1 e;
          e2 = (case ev of
                  Some c \<Rightarrow> reportMisbehavior (vs_ValidatorIndex x)
                    (conflict_misbehavior (cf_ext C) (vs_ValidatorIndex x) c) e1
                | None \<Rightarrow> e1)
      in extract_votes C cert xs s1 e2)"

definition finishCertificateSave :: "config \<Rightarrow> sealed \<Rightarrow> simplexErr option \<Rightarrow> engine \<Rightarrow> engine" where
  "finishCertificateSave C vc err e =
     (if err \<noteq> None \<and> err \<noteq> Some ErrAlreadySaved then fatal (EJournalCertificate (the err)) e
      else case at_slot C (vote_Slot (cert_Vote (s_cert vc))) e of
        (None, e1) \<Rightarrow> e1
      | (Some s, e1) \<Rightarrow>
          (let (s1, e2) = extract_votes C (s_cert vc) (cert_Signatures (s_cert vc)) s e1
           in storeSavedCertificate C s1 vc e2))"

end
