(* ===== verification/EngineVoter.thy ===== *)
theory EngineVoter
  imports EnginePool
begin

text \<open>
  The voting policy, \<open>service/validator/simplex/voter.go\<close>: when to notarize, finalize and
  skip, the candidate pipeline and the slot timeouts. The operations are only reached with a
  voter present; without one they change nothing, as the callers guard.
\<close>

section \<open>Access to the voter's slots\<close>

definition voter_at :: "u32 \<Rightarrow> engine \<Rightarrow> voterSlot option \<times> engine" where
  "voter_at i e =
     (case voter e of
        None \<Rightarrow> (None, e)
      | Some v \<Rightarrow>
          (let (r, m) = slot_at newVoterSlot i (v_slots v)
           in (r, e\<lparr>voter := Some (v\<lparr>v_slots := m\<rparr>)\<rparr>)))"

definition modify_voter :: "(voterState \<Rightarrow> voterState) \<Rightarrow> engine \<Rightarrow> engine" where
  "modify_voter f e = e\<lparr>voter := map_option f (voter e)\<rparr>"

definition put_voter_slot :: "u32 \<Rightarrow> voterSlot \<Rightarrow> engine \<Rightarrow> engine" where
  "put_voter_slot i s e = modify_voter (\<lambda>v. v\<lparr>v_slots := put_slot i s (v_slots v)\<rparr>) e"

section \<open>Votes\<close>

text \<open>\<open>i\<close> is the slot whose state \<open>s\<close> is.\<close>

definition tryVoteFinal :: "config \<Rightarrow> u32 \<Rightarrow> voterSlot \<Rightarrow> engine \<Rightarrow> engine" where
  "tryVoteFinal C i s e =
     (case (votedNotar s, vs_notarCert s) of
        (Some a, Some b) \<Rightarrow>
          if \<not> votedSkip s \<and> \<not> votedFinal s \<and> a = b
          then put_voter_slot i (s\<lparr>votedFinal := True\<rparr>) (castVote C (FinalizeVote a) False e)
          else e
      | _ \<Rightarrow> e)"

definition maybeVoteNotar :: "config \<Rightarrow> candidateID \<Rightarrow> voterSlot \<Rightarrow> engine \<Rightarrow> engine" where
  "maybeVoteNotar C i s e =
     (if \<not> validated s \<or> \<not> stored s \<or> votedNotar s \<noteq> None then e
      else
        let s1 = s\<lparr>votedNotar := Some i\<rparr>;
            e1 = castVote C (NotarizeVote i) False (put_voter_slot (cid_Slot i) s1 e)
        in tryVoteFinal C (cid_Slot i) s1 e1)"

definition voterNotarizationObserved :: "config \<Rightarrow> candidateID \<Rightarrow> engine \<Rightarrow> engine" where
  "voterNotarizationObserved C i e =
     (case voter_at (cid_Slot i) e of
        (None, e1) \<Rightarrow> e1
      | (Some s, e1) \<Rightarrow>
          (let next_slot = cid_Slot i + 1;
               e2 = modify_voter (\<lambda>v.
                 if timeoutSlot v \<le> next_slot then
                   (let ts = (if next_slot mod spw C = 0 then next_slot else cid_Slot i + 2);
                        offset = ts - currentWindow v * spw C
                    in v\<lparr>timeoutSlot := ts,
                         alarmAt := timeoutBase v + wrap64 (int (unat offset) * TargetRate (e_params e1)),
                         alarmArmed := True\<rparr>)
                 else v) e1;
               s1 = s\<lparr>vs_notarCert := Some i\<rparr>
           in tryVoteFinal C (cid_Slot i) s1 (put_voter_slot (cid_Slot i) s1 e2)))"

definition voterFinalizationObserved :: "candidateID \<Rightarrow> engine \<Rightarrow> engine" where
  "voterFinalizationObserved i e =
     modify_voter (\<lambda>v. v\<lparr>v_slots := notifyFinalized (cid_Slot i) (v_slots v)\<rparr>) e"

section \<open>Timeouts and recovery\<close>

definition skip_slot :: "config \<Rightarrow> u32 \<Rightarrow> engine \<Rightarrow> engine" where
  "skip_slot C i e =
     (case voter_at i e of
        (None, e1) \<Rightarrow> e1
      | (Some s, e1) \<Rightarrow>
          if votedFinal s then e1
          else modify_voter (\<lambda>v. v\<lparr>previousWindowHadSkip := True\<rparr>)
                 (put_voter_slot i (s\<lparr>votedSkip := True\<rparr>) (castVote C (SkipVote i) False e1)))"

definition fireVoterAlarm :: "config \<Rightarrow> engine \<Rightarrow> engine" where
  "fireVoterAlarm C e =
     (case voter e of
        None \<Rightarrow> e
      | Some v \<Rightarrow>
          (let e1 = modify_voter (\<lambda>v. v\<lparr>alarmArmed := False\<rparr>) e;
               rangeStart = timeoutSlot v - 1;
               windowStart = rangeStart - rangeStart mod spw C;
               windowEnd = windowStart + spw C;
               e2 = foldl (\<lambda>e i. skip_slot C i e) e1 (slot_range rangeStart windowEnd)
           in modify_voter (\<lambda>v. v\<lparr>timeoutSlot := windowEnd\<rparr>) e2))"

text \<open>One journaled vote of \<open>bootstrapVoter\<close>; a record that contradicts the flags is dropped.\<close>

definition restore_vote :: "vote \<Rightarrow> engine \<Rightarrow> engine" where
  "restore_vote v e =
     (case voter_at (vote_Slot v) e of
        (None, e1) \<Rightarrow> e1
      | (Some s, e1) \<Rightarrow>
          (case v_Kind v of
             VoteNotarize \<Rightarrow>
               if votedNotar s \<noteq> None \<and> votedNotar s \<noteq> Some (v_ID v) then e1
               else put_voter_slot (vote_Slot v) (s\<lparr>votedNotar := Some (v_ID v)\<rparr>) e1
           | VoteFinalize \<Rightarrow>
               if votedSkip s \<or> (votedNotar s \<noteq> None \<and> votedNotar s \<noteq> Some (v_ID v)) then e1
               else put_voter_slot (vote_Slot v) (s\<lparr>votedFinal := True\<rparr>) e1
           | VoteSkip \<Rightarrow>
               if votedFinal s then e1
               else put_voter_slot (vote_Slot v) (s\<lparr>votedSkip := True\<rparr>) e1))"

definition reserve_skip :: "u32 \<Rightarrow> engine \<Rightarrow> engine" where
  "reserve_skip i e =
     (case voter_at i e of
        (None, e1) \<Rightarrow> e1
      | (Some s, e1) \<Rightarrow> if votedFinal s then e1 else put_voter_slot i (s\<lparr>votedSkip := True\<rparr>) e1)"

definition bootstrapVoter :: "config \<Rightarrow> vote list \<Rightarrow> engine \<Rightarrow> engine" where
  "bootstrapVoter C vs e =
     (let e1 = foldl (\<lambda>e v. restore_vote v e) e vs
      in if firstNonAnnouncedWindow e1 = 0 then e1
         else
           let windowEnd = firstNonAnnouncedWindow e1 * spw C
           in foldl (\<lambda>e i. reserve_skip i e) e1 (slot_range (windowEnd - spw C) windowEnd))"

definition startup_skip :: "config \<Rightarrow> u32 \<Rightarrow> engine \<Rightarrow> engine" where
  "startup_skip C i e =
     (case voter_at i e of
        (None, e1) \<Rightarrow> e1
      | (Some s, e1) \<Rightarrow> if votedFinal s then e1 else castVote C (SkipVote i) False e1)"

definition castStartupWindowSkips :: "config \<Rightarrow> engine \<Rightarrow> engine" where
  "castStartupWindowSkips C e =
     (if firstNonAnnouncedWindow e = 0 then e
      else
        let window = firstNonAnnouncedWindow e - 1
        in foldl (\<lambda>e i. startup_skip C i e) e
             (slot_range (window * spw C) ((window + 1) * spw C)))"

section \<open>The candidate pipeline\<close>

definition acceptCandidate :: "config \<Rightarrow> candidate \<Rightarrow> engine \<Rightarrow> engine" where
  "acceptCandidate C c e =
     (case voter e of
        None \<Rightarrow> e
      | Some v \<Rightarrow>
          if cid_Slot (c_ID c) \<ge> (currentWindow v + MaxLeaderWindowDesync (e_params e) + 1) * spw C then e
          else case voter_at (cid_Slot (c_ID c)) e of
            (None, e1) \<Rightarrow> e1
          | (Some s, e1) \<Rightarrow>
              if votedNotar s \<noteq> None \<or> vs_pending s \<noteq> None then e1
              else
                let s1 = s\<lparr>vs_pending := Some c, storeInFlight := True\<rparr>;
                    e2 = count (\<lambda>st. st\<lparr>CandidatesAccepted := CandidatesAccepted st + 1\<rparr>)
                           (put_voter_slot (cid_Slot (c_ID c)) s1 e1);
                    own = (c_Leader c = of_int (localIndex C));
                    e3 = (if own then noteOwnCandidate (c_ID c) e2
                          else trace C (TraceCandidateReceived (c_ID c) (c_Parent c)
                                 (if c_Empty c then None else Some (c_Block c))) e2)
                in registerParentWait C c (enqueue (NStoreCandidate c) e3))"

definition onParentWaitDone :: "config \<Rightarrow> candidate \<Rightarrow> waitOutcome \<Rightarrow> engine \<Rightarrow> engine" where
  "onParentWaitDone C c out e =
     (if voter e = None then e
      else case out of
        WaitMisbehavior m \<Rightarrow> reportMisbehavior (c_Leader c) m e
      | WaitError \<Rightarrow> e
      | WaitOk \<Rightarrow>
          (case voter_at (cid_Slot (c_ID c)) e of
             (None, e1) \<Rightarrow> e1
           | (Some s, e1) \<Rightarrow>
               if map_option c_ID (vs_pending s) \<noteq> Some (c_ID c) \<or> votedNotar s \<noteq> None \<or> validationInFlight s
               then e1
               else enqueue (NValidateCandidate c)
                      (put_voter_slot (cid_Slot (c_ID c)) (s\<lparr>validationInFlight := True\<rparr>) e1)))"

datatype verdict = Accepted | Rejected | Abstained

definition completeValidation :: "config \<Rightarrow> candidateID \<Rightarrow> verdict \<Rightarrow> engine \<Rightarrow> engine" where
  "completeValidation C i vd e =
     (if voter e = None then e
      else case voter_at (cid_Slot i) e of
        (None, e1) \<Rightarrow> e1
      | (Some s, e1) \<Rightarrow>
          if map_option c_ID (vs_pending s) \<noteq> Some i \<or> \<not> validationInFlight s then e1
          else
            let s1 = s\<lparr>validationInFlight := False\<rparr>
            in case vd of
                 Rejected \<Rightarrow> count (\<lambda>st. st\<lparr>CandidatesRejected := CandidatesRejected st + 1\<rparr>)
                   (put_voter_slot (cid_Slot i) s1 e1)
               | Abstained \<Rightarrow> count (\<lambda>st. st\<lparr>CandidatesAbstained := CandidatesAbstained st + 1\<rparr>)
                   (put_voter_slot (cid_Slot i) s1 e1)
               | Accepted \<Rightarrow>
                   (let s2 = s1\<lparr>validated := True\<rparr>
                    in maybeVoteNotar C i s2 (put_voter_slot (cid_Slot i) s2 e1)))"

definition completeStore :: "config \<Rightarrow> candidateID \<Rightarrow> simplexErr option \<Rightarrow> engine \<Rightarrow> engine" where
  "completeStore C i err e =
     (if voter e = None then e
      else case voter_at (cid_Slot i) e of
        (None, e1) \<Rightarrow> e1
      | (Some s, e1) \<Rightarrow>
          if map_option c_ID (vs_pending s) \<noteq> Some i \<or> \<not> storeInFlight s then e1
          else
            let s1 = s\<lparr>storeInFlight := False\<rparr>
            in case err of
                 Some x \<Rightarrow> fatal (EStoreFailed i x) (put_voter_slot (cid_Slot i) s1 e1)
               | None \<Rightarrow>
                   (let s2 = s1\<lparr>stored := True\<rparr>
                    in maybeVoteNotar C i s2 (put_voter_slot (cid_Slot i) s2 e1)))"

end
