(* ===== verification/Engine.thy ===== *)
theory Engine
  imports EngineVoter
begin

text \<open>
  The engine's inputs, \<open>service/validator/simplex/engine.go\<close>: deferred notifications and
  completions, network ingestion with the batched signature check, candidates, timers with
  the standstill broadcast, construction and recovery.
\<close>

section \<open>Deferred notifications\<close>

definition run_notice :: "config \<Rightarrow> notice \<Rightarrow> engine \<Rightarrow> engine" where
  "run_notice C f e =
     (case f of
        NNotarized i vc \<Rightarrow> emit (OHook (HNotarized i vc)) e
      | NVoterNotarization i \<Rightarrow> voterNotarizationObserved C i e
      | NFinalized i vc \<Rightarrow> emit (OHook (HFinalized i vc)) e
      | NVoterFinalization i \<Rightarrow> voterFinalizationObserved i e
      | NHandleWindow w \<Rightarrow> emit (OHook (HWindow w)) e
      | NMisbehavior idx m \<Rightarrow> emit (OHook (HMisbehavior idx m)) e
      | NFatal err \<Rightarrow> emit (OHook (HFatal err)) e
      | NStoreCandidate c \<Rightarrow> begin_async (CStore (c_ID c)) (emit (OHook (HStore c)) e)
      | NParentWaitDone c out \<Rightarrow> onParentWaitDone C c out e
      | NValidateCandidate c \<Rightarrow> begin_async (CValidate (c_ID c)) (emit (OHook (HValidate c)) e))"

definition notice_weight :: "notice \<Rightarrow> nat" where
  "notice_weight f = (case f of NParentWaitDone c out \<Rightarrow> 2 | _ \<Rightarrow> 1)"

definition pending_weight :: "engine \<Rightarrow> nat" where
  "pending_weight e = sum_list (map notice_weight (pending e))"

lemma pending_update [simp]:
  "pending (emit x e) = pending e" "pending (begin_async c e) = pending e" "pending (count f e) = pending e"
  "pending (trace C ev e) = pending e" "pending (put_voter_slot i s e) = pending e"
  "pending (modify_voter g e) = pending e"
  by (simp_all add: emit_def begin_async_def count_def trace_def put_voter_slot_def modify_voter_def)

lemma pending_voter_at: "voter_at i e = (r, e') \<Longrightarrow> pending e' = pending e"
  by (auto simp: voter_at_def split: option.splits prod.splits)

lemma pending_castVote [simp]: "pending (castVote C v False e) = pending e"
  by (simp add: castVote_def Let_def)

lemma pending_tryVoteFinal [simp]: "pending (tryVoteFinal C i s e) = pending e"
  by (simp add: tryVoteFinal_def split: option.split)

lemma pending_run_notice:
  "sum_list (map notice_weight (pending (run_notice C f e))) < notice_weight f + pending_weight e"
proof -
  have notar: "pending (voterNotarizationObserved C i e) = pending e" for i
    by (auto dest: pending_voter_at simp: voterNotarizationObserved_def Let_def split: prod.split option.split)
  have wait: "sum_list (map notice_weight (pending (onParentWaitDone C c out e))) \<le> 1 + pending_weight e" for c out
    by (auto dest: pending_voter_at simp: onParentWaitDone_def reportMisbehavior_def enqueue_def notice_weight_def pending_weight_def
        split: prod.split option.split waitOutcome.split)
  show ?thesis
    using wait by (cases f) (auto simp: run_notice_def notice_weight_def pending_weight_def notar
        voterFinalizationObserved_def less_Suc_eq_le)
qed

function drainPending :: "config \<Rightarrow> engine \<Rightarrow> engine" where
  "drainPending C e =
     (case pending e of
        [] \<Rightarrow> e
      | f # fs \<Rightarrow> drainPending C (run_notice C f (e\<lparr>pending := fs\<rparr>)))"
  by pat_completeness auto
termination
proof (relation "measure (\<lambda>(C, e). pending_weight e)", goal_cases)
  case (2 C e f fs)
  then show ?case
    using pending_run_notice [of C f "e\<lparr>pending := fs\<rparr>"] by (simp add: pending_weight_def)
qed simp

declare drainPending.simps [simp del]

definition completeAsync :: "config \<Rightarrow> (engine \<Rightarrow> engine) \<Rightarrow> engine \<Rightarrow> engine" where
  "completeAsync C action e = (if failed e then e else drainPending C (action e))"

definition run :: "config \<Rightarrow> (engine \<Rightarrow> engine) \<Rightarrow> engine \<Rightarrow> engine" where
  "run C action e = (if \<not> started e \<or> failed e then e else drainPending C (action e))"

text \<open>The continuation of \<open>SaveOurVote\<close> in \<open>castVote\<close>.\<close>

definition vote_saved :: "config \<Rightarrow> vote \<Rightarrow> simplexErr option \<Rightarrow> engine \<Rightarrow> engine" where
  "vote_saved C v err e =
     (case err of
        None \<Rightarrow> finishVoteCast C v False e
      | Some x \<Rightarrow> if x = ErrAlreadySaved then e else fatal (EJournalVote v x) e)"

definition window_saved :: "simplexErr option \<Rightarrow> engine \<Rightarrow> engine" where
  "window_saved err e = (case err of None \<Rightarrow> e | Some x \<Rightarrow> fatal (EJournalWindow x) e)"

section \<open>Network ingestion\<close>

definition firstTooNewSlot :: "config \<Rightarrow> engine \<Rightarrow> u32" where
  "firstTooNewSlot C e = (now e div spw C + MaxLeaderWindowDesync (e_params e) + 1) * spw C"

definition verifyCertificate :: "config \<Rightarrow> certificate \<Rightarrow> engine \<Rightarrow> sealed result \<times> engine" where
  "verifyCertificate C cert e =
     (case validateCertificateVote (cert_Vote cert) of
        Inl err \<Rightarrow> (Inl err, e)
      | Inr _ \<Rightarrow>
          (let (payload, e1) = votePayload C (cert_Vote cert) e
           in case verifyCertificatePayload (cf_ext C) (validators C) (threshold C) payload cert of
                Inl err \<Rightarrow> (Inl err, e1)
              | Inr _ \<Rightarrow> (Inr (sealCertificate cert (cv_binding (certs C))), e1)))"

definition handle_vote_message :: "config \<Rightarrow> h256 \<Rightarrow> int \<Rightarrow> bytes \<Rightarrow> engine \<Rightarrow> engine" where
  "handle_vote_message C src srcValidator data e =
     (if srcValidator < 0 \<or> srcValidator \<ge> int (length (validators C)) then ban src e
      else case parseSignedVote (cf_ext C) data of
        Inl err \<Rightarrow> drop_message e
      | Inr (v, sig) \<Rightarrow>
          if vote_Slot v \<ge> firstTooNewSlot C e then drop_message e
          else if vote_Slot v < firstNonFinalized (e_slots e) then e
          else case at_slot C (vote_Slot v) e of
            (None, e1) \<Rightarrow> fatal (EConsensus (ENilSlot (vote_Slot v))) e1
          | (Some s, e1) \<Rightarrow>
              if \<not> wants (votes s ! nat srcValidator) v then e1
              else
                let (payload, e2) = votePayload C v e1
                in e2\<lparr>pendingVerify := pendingVerify e2 @
                       [\<lparr>pv_src = src, pv_idx = of_int srcValidator, pv_vote = v, pv_sig = sig,
                         pv_payload = payload, pv_ok = False\<rparr>]\<rparr>)"

definition handle_certificate_message :: "config \<Rightarrow> h256 \<Rightarrow> bytes \<Rightarrow> engine \<Rightarrow> engine" where
  "handle_certificate_message C src data e =
     (if length data > maxCertWire C then drop_message e
      else case parseCertificate (cf_ext C) data (length (validators C)) of
        Inl err \<Rightarrow> drop_message e
      | Inr cert \<Rightarrow>
          (let v = cert_Vote cert;
               tooNew = (vote_Slot v \<ge> firstTooNewSlot C e);
               pre = (if tooNew then
                        (case peek (vote_Slot v) (e_slots e) of
                           Some s \<Rightarrow> (needs s v, e)
                         | None \<Rightarrow> (True, e))
                      else (case at_slot C (vote_Slot v) e of
                              (None, e1) \<Rightarrow> (False, e1)
                            | (Some s, e1) \<Rightarrow> (needs s v, e1)))
           in if \<not> fst pre then snd pre
              else case verifyCertificate C cert (snd pre) of
                (Inl err, e2) \<Rightarrow> ban src e2
              | (Inr vc, e2) \<Rightarrow>
                  if tooNew then
                    (case at_slot C (vote_Slot v) e2 of
                       (None, e3) \<Rightarrow> e3
                     | (Some s, e3) \<Rightarrow> if \<not> needs s v then e3 else handleCertificate C vc e3)
                  else handleCertificate C vc e2))"

definition handleMessage :: "config \<Rightarrow> h256 \<Rightarrow> int \<Rightarrow> bytes \<Rightarrow> engine \<Rightarrow> engine" where
  "handleMessage C src srcValidator data e =
     (case isBanned src e of
        (True, e1) \<Rightarrow> drop_message e1
      | (False, e1) \<Rightarrow>
          if length data < 4 then drop_message e1
          else if get_le32 data = idSignedVote (cf_ext C)
          then handle_vote_message C src srcValidator data e1
          else if get_le32 data = idCertificate (cf_ext C)
          then handle_certificate_message C src data e1
          else drop_message e1)"

definition verifyPendingVote :: "config \<Rightarrow> pendingVote \<Rightarrow> bool" where
  "verifyPendingVote C p \<longleftrightarrow>
     length (pv_sig p) = ed25519_SignatureSize
     \<and> ed25519_Verify (cf_ext C) (PublicKey (validators C ! unat (pv_idx p))) (pv_payload p) (pv_sig p)"

text \<open>
  Every entry is judged on its own, sequentially or by the fan-out, whose body never lowers
  the bound and is therefore called for every index.
\<close>

definition verifyPendingVotes :: "config \<Rightarrow> pendingVote list \<Rightarrow> pendingVote list" where
  "verifyPendingVotes C batch = map (\<lambda>p. p\<lparr>pv_ok := verifyPendingVote C p\<rparr>) batch"

definition apply_verified :: "config \<Rightarrow> u32 \<Rightarrow> pendingVote \<Rightarrow> engine \<Rightarrow> engine" where
  "apply_verified C tooNew p e =
     (case isBanned (pv_src p) e of
        (True, e1) \<Rightarrow> e1
      | (False, e1) \<Rightarrow>
          if vote_Slot (pv_vote p) \<ge> tooNew \<or> vote_Slot (pv_vote p) < firstNonFinalized (e_slots e1) then e1
          else case at_slot C (vote_Slot (pv_vote p)) e1 of
            (None, e2) \<Rightarrow> e2
          | (Some s, e2) \<Rightarrow>
              if \<not> wants (votes s ! unat (pv_idx p)) (pv_vote p) then e2
              else if \<not> pv_ok p then ban (pv_src p) e2
              else
                let (applied, e3) = applyVote C (pv_idx p) (pv_vote p) (pv_sig p) False e2
                in if applied then count (\<lambda>st. st\<lparr>VotesApplied := VotesApplied st + 1\<rparr>) e3 else e3)"

fun apply_batch :: "config \<Rightarrow> u32 \<Rightarrow> pendingVote list \<Rightarrow> engine \<Rightarrow> engine" where
  "apply_batch C tooNew [] e = e"
| "apply_batch C tooNew (p # ps) e =
     (if failed e then e else apply_batch C tooNew ps (apply_verified C tooNew p e))"

definition flushVerify :: "config \<Rightarrow> engine \<Rightarrow> engine" where
  "flushVerify C e =
     (if pendingVerify e = [] then e
      else
        let batch = verifyPendingVotes C (pendingVerify e);
            e1 = apply_batch C (firstTooNewSlot C e) batch e
        in e1\<lparr>pendingVerify := []\<rparr>)"

definition HandleMessage :: "config \<Rightarrow> h256 \<Rightarrow> int \<Rightarrow> bytes \<Rightarrow> engine \<Rightarrow> engine" where
  "HandleMessage C src srcValidator data e =
     run C (\<lambda>e. flushVerify C (handleMessage C src srcValidator data e)) e"

definition handleMessageBatched :: "config \<Rightarrow> h256 \<Rightarrow> int \<Rightarrow> bytes \<Rightarrow> engine \<Rightarrow> engine" where
  "handleMessageBatched C src srcValidator data e = run C (handleMessage C src srcValidator data) e"

definition FlushVerify :: "config \<Rightarrow> engine \<Rightarrow> engine" where
  "FlushVerify C e =
     (if pendingVerify e = [] then e
      else if \<not> started e \<or> failed e then e\<lparr>pendingVerify := []\<rparr>
      else run C (flushVerify C) e)"

section \<open>Candidates\<close>

definition SubmitCandidate :: "config \<Rightarrow> candidate \<Rightarrow> engine \<Rightarrow> unit result \<times> engine" where
  "SubmitCandidate C c e =
     (if \<not> started e \<or> failed e then (Inl ErrStopped, e)
      else if voter e = None then (Inr (), e)
      else case ValidateShape c of
        Inl err \<Rightarrow> (Inl err, e)
      | Inr _ \<Rightarrow>
          (let cc = c\<lparr>c_ID := ComputeID (cf_ext C) c (cid_Slot (c_ID c))\<rparr>;
               leader = schedule C (cid_Slot (c_ID cc));
               key = PublicKey (validators C ! unat leader)
           in if unat leader \<ge> length (validators C)
              then (Inl (ECandidate (ELeaderOutOfRange leader (cid_Slot (c_ID cc)))), e)
              else if c_Leader cc \<noteq> leader then (Inl (ECandidate (EWrongLeader (c_Leader cc) leader)), e)
              else
                let authentic = (case c_Delegation cc of
                       Some d \<Rightarrow> verifyDelegatedCandidate (cf_ext C) cc d key (sessionID C) (spw C)
                     | None \<Rightarrow>
                         if VerifyCandidateSignature (cf_ext C) key (sessionID C) (c_ID cc) (c_Signature cc)
                         then Inr () else Inl (ECandidate ECandidateSignature))
                in case authentic of
                     Inl err \<Rightarrow> (Inl err, e)
                   | Inr _ \<Rightarrow> (Inr (), run C (acceptCandidate C cc) e)))"

definition PrecheckCandidateBroadcast ::
  "config \<Rightarrow> u32 \<Rightarrow> h256 \<Rightarrow> bool \<Rightarrow> engine \<Rightarrow> unit result \<times> engine" where
  "PrecheckCandidateBroadcast C slot broadcastID signatureChecked e =
     (if \<not> started e \<or> failed e then (Inl ErrStopped, e)
      else if slot < firstNonFinalized (e_slots e) then (Inl (ECandidate ESlotFinalized), e)
      else if slot > now e + MaxLeaderWindowDesync (e_params e) * spw C
      then (Inl (ECandidate ESlotTooFar), e)
      else if map_of (seenBroadcasts e) slot \<noteq> None \<and> map_of (seenBroadcasts e) slot \<noteq> Some broadcastID
      then (Inl (ECandidate EDuplicateBroadcast), e)
      else (Inr (), if signatureChecked
                    then e\<lparr>seenBroadcasts := map_put slot broadcastID (seenBroadcasts e)\<rparr> else e))"

section \<open>Standstill\<close>

definition slot_messages :: "config \<Rightarrow> poolSlot \<Rightarrow> bytes list" where
  "slot_messages C s =
     concat (map (\<lambda>c. case c of Some x \<Rightarrow> [Certificate_Serialize (cf_ext C) x] | None \<Rightarrow> [])
       [notarCert s, skipCert s, finalCert s])
     @ (if localIndex C \<ge> 0 then
          concat (map (\<lambda>k.
            case byKind k (votes s ! nat (localIndex C)) of
              Some p \<Rightarrow>
                if \<not> p_fromCert p \<and> fst (certByKind k s) = None
                then [SignedVote_Serialize (cf_ext C)
                        \<lparr>sv_ValidatorIndex = of_int (localIndex C), sv_Vote = p_vote p, sv_Signature = p_sig p\<rparr>]
                else []
            | None \<Rightarrow> [])
            [VoteNotarize, VoteSkip, VoteFinalize])
        else [])"

definition buildStandstillMessages :: "config \<Rightarrow> engine \<Rightarrow> bytes list" where
  "buildStandstillMessages C e =
     (case lastFinalCert e of Some c \<Rightarrow> [Certificate_Serialize (cf_ext C) c] | None \<Rightarrow> [])
     @ concat (map (\<lambda>i. case peek i (e_slots e) of Some s \<Rightarrow> slot_messages C s | None \<Rightarrow> [])
         (case interval (e_slots e) of (b, en) \<Rightarrow> slot_range b en))"

definition egress_rate :: "config \<Rightarrow> params \<Rightarrow> float64" where
  "egress_rate C p =
     (let rate = f64_div (f64_of_int (uint (StandstillMaxEgressBytesPerS p)))
                   (f64_of_int (uint (push_bit (unat (shardPfxLen C)) 1 :: u64)));
          minRate = f64_of_int (uint (StandstillMinEgressBytesPerS p));
          rate1 = (if f64_less rate minRate then minRate else rate)
      in if f64_less rate1 (Fin 1) then Fin 1 else rate1)"

text \<open>\<open>time.Duration.Seconds\<close>; Go's division truncates.\<close>

definition duration_seconds :: "duration \<Rightarrow> float64" where
  "duration_seconds d =
     (let sec = sgn d * (\<bar>d\<bar> div Second); nsec = sgn d * (\<bar>d\<bar> mod Second)
      in f64_add (f64_of_int sec) (f64_div (f64_of_int nsec) (f64_of_int Second)))"

function drain_loop :: "config \<Rightarrow> gotime \<Rightarrow> float64 \<Rightarrow> drainState \<Rightarrow> engine \<Rightarrow> engine" where
  "drain_loop C t rate d e =
     (if d_idx d < length (d_msgs d) then
        (let msg = d_msgs d ! d_idx d;
             cost = f64_of_int (int (length msg * length (validators C)));
             delay = f64_div (f64_sub cost (d_quota d)) rate;
             due = d_quotaTime d + f64_to_int64 (f64_mul delay (f64_of_int Second))
         in if f64_less (d_quota d) cost \<and> due > t
            then e\<lparr>drain := Some (d\<lparr>d_nextAt := due\<rparr>)\<rparr>
            else
              let d1 = (if f64_less (d_quota d) cost then
                          (let refilled = f64_add (d_quota d)
                                 (f64_mul (duration_seconds (t - d_quotaTime d)) rate);
                               refilled1 = (if f64_less rate refilled then rate else refilled)
                           in d\<lparr>d_quota := refilled1, d_quotaTime := t\<rparr>)
                        else d);
                  d2 = d1\<lparr>d_quota := f64_sub (d_quota d1) cost, d_idx := d_idx d1 + 1\<rparr>
              in drain_loop C t rate d2 (emit (OSend (ToValidators msg)) e))
      else e\<lparr>drain := None\<rparr>)"
  by pat_completeness auto
termination
  by (relation "measure (\<lambda>(C, t, rate, d, e). length (d_msgs d) - d_idx d)") (auto simp: Let_def)

declare drain_loop.simps [simp del]

definition stepDrain :: "config \<Rightarrow> gotime \<Rightarrow> engine \<Rightarrow> engine" where
  "stepDrain C t e =
     (case drain e of
        None \<Rightarrow> e
      | Some d \<Rightarrow>
          if lastFinalCert e \<noteq> d_finalCertAtStart d then e\<lparr>drain := None\<rparr>
          else drain_loop C t (egress_rate C (e_params e)) d e)"

definition startDrain :: "config \<Rightarrow> gotime \<Rightarrow> engine \<Rightarrow> engine" where
  "startDrain C t e =
     stepDrain C t
       (e\<lparr>drain := Some \<lparr>d_msgs = buildStandstillMessages C e, d_idx = 0, d_quota = Fin 0,
            d_quotaTime = t - 10 * Millisecond, d_nextAt = t, d_finalCertAtStart = lastFinalCert e\<rparr>\<rparr>)"

definition fireStandstill :: "config \<Rightarrow> gotime \<Rightarrow> engine \<Rightarrow> engine" where
  "fireStandstill C t e =
     (let e1 = count (\<lambda>s. s\<lparr>Standstills := Standstills s + 1\<rparr>) e;
          e2 = e1\<lparr>standstillAt := t + StandstillTimeout (e_params e1),
                  bans := filter (\<lambda>(p, until). \<not> t > until) (bans e1)\<rparr>
      in if localIndex C = ObserverIndex then e2
         else if drain e2 \<noteq> None then e2
         else startDrain C t e2)"

section \<open>Timers\<close>

definition earlier :: "gotime \<Rightarrow> gotime \<Rightarrow> gotime" where
  "earlier best t = (if t = 0 then best else if best = 0 \<or> t < best then t else best)"

definition NextWakeup :: "engine \<Rightarrow> gotime" where
  "NextWakeup e =
     (if \<not> started e \<or> failed e then 0
      else
        let a = earlier 0 (standstillAt e);
            b = (case voter e of Some v \<Rightarrow> if alarmArmed v then earlier a (alarmAt v) else a | None \<Rightarrow> a)
        in case drain e of Some d \<Rightarrow> earlier b (d_nextAt d) | None \<Rightarrow> b)"

definition due_alarm :: "config \<Rightarrow> gotime \<Rightarrow> engine \<Rightarrow> engine" where
  "due_alarm C t e =
     (case voter e of
        Some v \<Rightarrow> if \<not> failed e \<and> alarmArmed v \<and> \<not> alarmAt v > t then fireVoterAlarm C e else e
      | None \<Rightarrow> e)"

definition due_standstill :: "config \<Rightarrow> gotime \<Rightarrow> engine \<Rightarrow> engine" where
  "due_standstill C t e =
     (if \<not> failed e \<and> standstillAt e \<noteq> 0 \<and> \<not> standstillAt e > t then fireStandstill C t e else e)"

definition due_drain :: "config \<Rightarrow> gotime \<Rightarrow> engine \<Rightarrow> engine" where
  "due_drain C t e =
     (case drain e of
        Some d \<Rightarrow> if \<not> failed e \<and> \<not> d_nextAt d > t then stepDrain C t e else e
      | None \<Rightarrow> e)"

definition advance_timers :: "config \<Rightarrow> engine \<Rightarrow> engine" where
  "advance_timers C e =
     (let e1 = flushVerify C e; t = clock e1
      in due_drain C t (due_standstill C t (due_alarm C t e1)))"

definition Advance :: "config \<Rightarrow> engine \<Rightarrow> engine" where
  "Advance C e = run C (advance_timers C) e"

section \<open>Lifecycle\<close>

text \<open>
  The configuration of a session (\<open>Config\<close>). The interfaces are represented by whether they
  are set; \<open>Bootstrap\<close> is an argument of \<open>Start\<close>, the clock reading one of every input.
\<close>

record sessionConfig =
  sc_SessionID :: h256
  sc_ProtocolVersion :: u8
  sc_Validators :: "validator list"
  sc_LocalIndex :: int
  sc_SlotsPerLeaderWindow :: u32
  sc_ShardPrefixLen :: u32
  sc_Workchain :: u32
  sc_Shard :: u64
  sc_CCSeqno :: u32
  sc_Params :: "params option"
  sc_Schedule :: "(u32 \<Rightarrow> u32) option"
  sc_Journal :: bool
  sc_Transport :: bool
  sc_Hooks :: bool
  sc_Tracer :: bool
  sc_Signer :: bool

definition MaxProtocolVersion :: u8 where
  "MaxProtocolVersion = 3"

definition probeSignerIdentity :: "ext \<Rightarrow> bytes \<Rightarrow> h256 \<Rightarrow> unit result" where
  "probeSignerIdentity X publicKey sid =
     (if length publicKey \<noteq> ed25519_PublicKeySize then Inl (EConfig (EInvalidConfig ''public key''))
      else
        let payload = DataToSign X sid (VoteBytes X (SkipVote (- 1)))
        in case signer_Sign X payload of
             Inl err \<Rightarrow> Inl (EConfig ESignerProbe)
           | Inr sig \<Rightarrow>
               if length sig \<noteq> ed25519_SignatureSize \<or> \<not> ed25519_Verify X publicKey payload sig
               then Inl (EConfig ESignerProbe) else Inr ())"

definition newEngineState :: "params \<Rightarrow> int \<Rightarrow> gotime \<Rightarrow> engine" where
  "newEngineState p local clk = \<lparr>
     e_params = p, started = False, stopped = False, fatalErr = None, e_slots = newSlotMap, now = 0,
     firstNonAnnouncedWindow = 0, lastFinalized = Genesis, lastFinalCert = None, skipRuns = [],
     parentWaits = [], suppressCertBroadcast = True, seenBroadcasts = [], bans = [],
     standstillAt = 0, drain = None,
     voter = (if local \<noteq> ObserverIndex then Some (newVoterState (FirstBlockTimeout p)) else None),
     payloadCache = [], pending = [], pendingVerify = [], ownCandidates = [], e_stats = zeroStats,
     clock = clk, inflight = [], outs = []\<rparr>"

definition NewEngine :: "ext \<Rightarrow> sessionConfig \<Rightarrow> gotime \<Rightarrow> (config \<times> engine) result" where
  "NewEngine X cfg clk =
     (let vs = sc_Validators cfg; local = sc_LocalIndex cfg; isLocal = (local \<noteq> ObserverIndex)
      in if length vs = 0 then Inl (EConfig EEmptyValidatorSet)
         else if sc_ProtocolVersion cfg > MaxProtocolVersion
           then Inl (EConfig (EInvalidConfig ''protocol version''))
         else if sc_SlotsPerLeaderWindow cfg = 0
           then Inl (EConfig (EInvalidConfig ''slots per leader window''))
         else if sc_ShardPrefixLen cfg > 60 then Inl (EConfig (EInvalidConfig ''shard prefix length''))
         else if isLocal \<and> (local < 0 \<or> local \<ge> int (length vs))
           then Inl (EConfig (EInvalidConfig ''local index''))
         else if isLocal \<and> \<not> sc_Signer cfg then Inl (EConfig (EInvalidConfig ''signer''))
         else if \<not> sc_Journal cfg \<or> \<not> sc_Transport cfg \<or> \<not> sc_Hooks cfg
           then Inl (EConfig (EInvalidConfig ''journal, transport and hooks''))
         else case totalValidatorWeight vs of
           Inl err \<Rightarrow> Inl err
         | Inr tot \<Rightarrow>
             (case NewCertificateVerifier X (sc_SessionID cfg) vs of
                Inl err \<Rightarrow> Inl err
              | Inr verifier \<Rightarrow>
                  (case (if isLocal
                         then probeSignerIdentity X (PublicKey (vs ! nat local)) (sc_SessionID cfg)
                         else Inr ()) of
                     Inl err \<Rightarrow> Inl err
                   | Inr _ \<Rightarrow>
                       (let p = (case sc_Params cfg of Some q \<Rightarrow> q | None \<Rightarrow> DefaultParams)
                        in case validate_params p of
                             Inl err \<Rightarrow> Inl err
                           | Inr _ \<Rightarrow>
                               Inr (\<lparr>cf_ext = X, certs = verifier, totalWeight = tot, localIndex = local,
                                      spw = sc_SlotsPerLeaderWindow cfg,
                                      shardPfxLen = sc_ShardPrefixLen cfg,
                                      maxCertWire = 64 + length vs * 80,
                                      schedule = (case sc_Schedule cfg of Some f \<Rightarrow> f
                                        | None \<Rightarrow> RoundRobin_ExpectedLeader (sc_SlotsPerLeaderWindow cfg)
                                                    (of_nat (length vs))),
                                      tracing = sc_Tracer cfg, workchain = sc_Workchain cfg,
                                      shard = sc_Shard cfg, ccSeqno = sc_CCSeqno cfg\<rparr>,
                                    newEngineState p local clk)))))"

definition Stop :: "engine \<Rightarrow> engine" where
  "Stop e = e\<lparr>stopped := True, parentWaits := [], drain := None, pending := [], pendingVerify := []\<rparr>"

definition UpdateParams :: "params \<Rightarrow> engine \<Rightarrow> unit result \<times> engine" where
  "UpdateParams p e =
     (case validate_params p of Inl err \<Rightarrow> (Inl err, e) | Inr _ \<Rightarrow> (Inr (), e\<lparr>e_params := p\<rparr>))"

definition statsAliased :: "engine \<Rightarrow> stats" where
  "statsAliased e =
     (let s1 = (e_stats e)\<lparr>st_Slot := now e\<rparr>;
          s2 = (if Exists (lastFinalized e)
                then s1\<lparr>FinalizedSlot := cid_Slot (pid_ID (lastFinalized e)), HasFinalized := True\<rparr> else s1)
      in case voter e of Some v \<Rightarrow> s2\<lparr>st_FirstBlockTimeout := firstBlockTimeout v\<rparr> | None \<Rightarrow> s2)"

fun replay_certificates :: "config \<Rightarrow> sealed list \<Rightarrow> engine \<Rightarrow> simplexErr option \<times> engine" where
  "replay_certificates C [] e = (None, e)"
| "replay_certificates C (vc # vcs) e =
     (case at_slot C (vote_Slot (cert_Vote (s_cert vc))) e of
        (None, e1) \<Rightarrow> replay_certificates C vcs e1
      | (Some s, e1) \<Rightarrow>
          if \<not> needs s (cert_Vote (s_cert vc))
          then (Some (EConsensus (EDuplicateCertificate (cert_Vote (s_cert vc)))), e1)
          else
            let e2 = storeSavedCertificate C s vc e1
            in if fatalErr e2 \<noteq> None then (fatalErr e2, e2) else replay_certificates C vcs e2)"

fun replay_votes :: "config \<Rightarrow> vote list \<Rightarrow> engine \<Rightarrow> engine" where
  "replay_votes C [] e = e"
| "replay_votes C (v # vs) e =
     replay_votes C vs
       (if vote_Slot v < firstNonFinalized (e_slots e) then e else castVote C v True e)"

text \<open>\<open>journal\<close> is what \<open>journal.Bootstrap()\<close> returns; \<open>handed\<close> is the bootstrap of the configuration.\<close>

definition load_bootstrap ::
  "config \<Rightarrow> bootstrapState option result \<Rightarrow> validatedBootstrap \<Rightarrow> validatedBootstrap result" where
  "load_bootstrap C journal handed =
     (case journal of
        Inl err \<Rightarrow> Inl (EJournalBootstrap err)
      | Inr bs \<Rightarrow>
          if \<not> bootstrap_matches handed bs \<or> vb_binding handed \<noteq> cv_binding (certs C)
          then ValidateBootstrap (cf_ext C) (sessionID C) (validators C) bs
          else Inr handed)"

definition recover :: "config \<Rightarrow> bootstrapState \<Rightarrow> engine \<Rightarrow> engine" where
  "recover C bs e =
     (let e1 = e\<lparr>firstNonAnnouncedWindow := bs_FirstNonAnnouncedWindow bs\<rparr>;
          e2 = (if voter e1 \<noteq> None then bootstrapVoter C (bs_OurVotes bs) e1 else e1)
      in add_base C 0 Genesis e2)"

definition begin_session :: "config \<Rightarrow> engine \<Rightarrow> engine" where
  "begin_session C e =
     (let e1 = (if voter e \<noteq> None then castStartupWindowSkips C e else e);
          e2 = e1\<lparr>started := True, standstillAt := clock e1 + StandstillTimeout (e_params e1)\<rparr>;
          e3 = trace C (TraceSessionStarted (workchain C) (shard C) (ccSeqno C) (localIndex C)
                 (length (validators C)) (localWeight C) (totalWeight C) (spw C)) e2
      in drainPending C (advancePresent C e3))"

text \<open>A nil journal state that reached the replay would be dereferenced.\<close>

definition Start ::
  "config \<Rightarrow> bootstrapState option result \<Rightarrow> validatedBootstrap \<Rightarrow> engine \<Rightarrow> simplexErr option \<times> engine" where
  "Start C journal handed e =
     (if started e then (Some EAlreadyStarted, e)
      else if stopped e then (Some ErrStopped, e)
      else case load_bootstrap C journal handed of
        Inl err \<Rightarrow> (Some err, e)
      | Inr vb \<Rightarrow>
          (case vb_state vb of
             None \<Rightarrow> (Some (EConsensus (ENilSlot 0)), e)
           | Some bs \<Rightarrow>
               (case replay_certificates C (vb_sealed vb) (recover C bs e) of
                  (Some err, e1) \<Rightarrow> (Some err, e1)
                | (None, e1) \<Rightarrow>
                    (let e2 = drainPending C (e1\<lparr>suppressCertBroadcast := False\<rparr>);
                         e3 = begin_session C (replay_votes C (bs_OurVotes bs) e2)
                     in (fatalErr e3, e3)))))"

end
