(* ===== verification/EngineRun.thy ===== *)
theory EngineRun
  imports Engine
begin

text \<open>
  Runs of the engine: the inputs its loop goroutine executes one at a time (\<open>Runner\<close> posts
  them), with the completions of journal writes and candidate services in any order, and the
  sessions they form from a recovered journal on.
\<close>

section \<open>Inputs\<close>

datatype input =
    IMessage h256 int bytes
  | IBatched h256 int bytes
  | IFlush
  | ICandidate candidate
  | IPrecheck u32 h256 bool
  | IAdvance
  | IStop
  | IParams params
  | IVoteSaved vote "simplexErr option"
  | ICertSaved sealed "simplexErr option"
  | IWindowSaved u32 "simplexErr option"
  | IStored candidateID "simplexErr option"
  | IValidated candidateID verdict

fun completion_of :: "input \<Rightarrow> completion option" where
  "completion_of (IVoteSaved v err) = Some (CVote v)"
| "completion_of (ICertSaved vc err) = Some (CCert vc)"
| "completion_of (IWindowSaved w err) = Some (CWindow w)"
| "completion_of (IStored i err) = Some (CStore i)"
| "completion_of (IValidated i vd) = Some (CValidate i)"
| "completion_of _ = None"

text \<open>A completion is delivered once per call (\<open>Journal\<close>: exactly once; \<open>candidateDone\<close>: \<open>sync.Once\<close>).\<close>

definition enabled :: "input \<Rightarrow> engine \<Rightarrow> bool" where
  "enabled ev e \<longleftrightarrow> (case completion_of ev of Some c \<Rightarrow> c \<in> set (inflight e) | None \<Rightarrow> True)"

definition take_completion :: "input \<Rightarrow> engine \<Rightarrow> engine" where
  "take_completion ev e =
     (case completion_of ev of Some c \<Rightarrow> e\<lparr>inflight := remove1 c (inflight e)\<rparr> | None \<Rightarrow> e)"

definition handle :: "config \<Rightarrow> input \<Rightarrow> engine \<Rightarrow> engine" where
  "handle C ev e =
     (case ev of
        IMessage src srcV data \<Rightarrow> HandleMessage C src srcV data e
      | IBatched src srcV data \<Rightarrow> handleMessageBatched C src srcV data e
      | IFlush \<Rightarrow> FlushVerify C e
      | ICandidate c \<Rightarrow> snd (SubmitCandidate C c e)
      | IPrecheck i b checked \<Rightarrow> snd (PrecheckCandidateBroadcast C i b checked e)
      | IAdvance \<Rightarrow> Advance C e
      | IStop \<Rightarrow> Stop e
      | IParams p \<Rightarrow> snd (UpdateParams p e)
      | IVoteSaved v err \<Rightarrow> completeAsync C (vote_saved C v err) e
      | ICertSaved vc err \<Rightarrow> completeAsync C (finishCertificateSave C vc err) e
      | IWindowSaved w err \<Rightarrow> completeAsync C (window_saved err) e
      | IStored i err \<Rightarrow> run C (completeStore C i err) e
      | IValidated i vd \<Rightarrow> run C (completeValidation C i vd) e)"

text \<open>One turn of the loop: input \<open>ev\<close> at clock reading \<open>t\<close>.\<close>

definition turn :: "config \<Rightarrow> gotime \<times> input \<Rightarrow> engine \<Rightarrow> engine" where
  "turn C x e = handle C (snd x) (take_completion (snd x) (e\<lparr>clock := fst x\<rparr>))"

section \<open>Sessions\<close>

text \<open>
  \<open>session C st evs e\<close>: the engine of configuration \<open>C\<close>, started from the journal state \<open>st\<close>,
  is in state \<open>e\<close> after the inputs \<open>evs\<close>. The bootstrap handed to the engine is the zero value
  or what \<open>ValidateBootstrap\<close> returned for this session.
\<close>

definition handed_ok :: "config \<Rightarrow> validatedBootstrap \<Rightarrow> bool" where
  "handed_ok C handed \<longleftrightarrow> vb_state handed = None
     \<or> (\<exists>st. ValidateBootstrap (cf_ext C) (sessionID C) (validators C) st = Inr handed)"

inductive session :: "config \<Rightarrow> bootstrapState \<Rightarrow> (gotime \<times> input) list \<Rightarrow> engine \<Rightarrow> bool" for C st where
  boot: "NewEngine X cfg clk = Inr (C, e0) \<Longrightarrow> handed_ok C handed \<Longrightarrow>
    Start C (Inr (Some st)) handed e0 = (None, e) \<Longrightarrow> session C st [] e"
| input: "session C st evs e \<Longrightarrow> enabled (snd x) e \<Longrightarrow> session C st (evs @ [x]) (turn C x e)"

section \<open>Induction over the deferred notifications\<close>

lemma drainPending_induct:
  assumes "P e" and "\<And>e f fs. P e \<Longrightarrow> pending e = f # fs \<Longrightarrow> P (run_notice C f (e\<lparr>pending := fs\<rparr>))"
  shows "P (drainPending C e)"
  using assms
proof (induction C e rule: drainPending.induct)
  case (1 C e)
  show ?case
  proof (cases "pending e")
    case (Cons f fs)
    then have "P (drainPending C (run_notice C f (e\<lparr>pending := fs\<rparr>)))"
      using 1 by blast
    then show ?thesis by (subst drainPending.simps) (simp add: Cons)
  qed (use "1.prems"(1) in \<open>simp add: drainPending.simps\<close>)
qed

end
