(* ===== verification/EngineFrame.thy ===== *)
theory EngineFrame
  imports EngineRun
begin

text \<open>
  Frame reasoning for the engine. Most operations touch few fields; a property that is closed
  under the field updates an operation makes is kept by the operation. The locales state that
  closure, with the outputs the property admits as a parameter, and derive preservation for
  every operation:

  \<^item> \<open>update_frame\<close> for the operations that do not move the present slot,
  \<^item> \<open>pool_frame\<close> for all pool operations, given that \<open>advancePresent\<close> keeps the property;
    \<open>frame\<close> derives this from closure under the fields \<open>advancePresent\<close> writes,
  \<^item> \<open>voter_frame\<close> and \<open>full_frame\<close> with the voter and the deferred notifications,
  \<^item> \<open>life_frame\<close> for every input and for \<open>Start\<close>.

  The interpretations give the outputs as a growing log, the votes an input may sign, and what
  the recovery leaves alone.
\<close>

locale update_frame =
  fixes P :: "engine \<Rightarrow> bool" and okout :: "out \<Rightarrow> bool" and okcast :: "vote \<Rightarrow> bool"
  assumes outs_closed: "P e \<Longrightarrow> okout x \<Longrightarrow> P (e\<lparr>outs := outs e @ [x]\<rparr>)"
    and fatal_closed: "P e \<Longrightarrow> P (e\<lparr>fatalErr := a\<rparr>)"
    and slots_closed: "P e \<Longrightarrow> P (e\<lparr>e_slots := b\<rparr>)"
    and now_closed: "P e \<Longrightarrow> P (e\<lparr>now := c\<rparr>)"
    and final_closed: "P e \<Longrightarrow> P (e\<lparr>lastFinalized := f\<rparr>)"
    and final_cert_closed: "P e \<Longrightarrow> P (e\<lparr>lastFinalCert := g\<rparr>)"
    and runs_closed: "P e \<Longrightarrow> P (e\<lparr>skipRuns := h\<rparr>)"
    and waits_closed: "P e \<Longrightarrow> P (e\<lparr>parentWaits := i\<rparr>)"
    and broadcasts_closed: "P e \<Longrightarrow> P (e\<lparr>seenBroadcasts := j\<rparr>)"
    and bans_closed: "P e \<Longrightarrow> P (e\<lparr>bans := k\<rparr>)"
    and standstill_closed: "P e \<Longrightarrow> P (e\<lparr>standstillAt := l\<rparr>)"
    and drain_closed: "P e \<Longrightarrow> P (e\<lparr>drain := m\<rparr>)"
    and cache_closed: "P e \<Longrightarrow> P (e\<lparr>payloadCache := n\<rparr>)"
    and pending_closed: "P e \<Longrightarrow> P (e\<lparr>pending := q\<rparr>)"
    and verify_closed: "P e \<Longrightarrow> P (e\<lparr>pendingVerify := r\<rparr>)"
    and own_closed: "P e \<Longrightarrow> P (e\<lparr>ownCandidates := s\<rparr>)"
    and stats_closed: "P e \<Longrightarrow> P (e\<lparr>e_stats := t\<rparr>)"
    and begin_closed: "P e \<Longrightarrow> (\<And>v. z \<noteq> CVote v) \<Longrightarrow> P (e\<lparr>inflight := inflight e @ [z]\<rparr>)"
    and cast_closed: "P e \<Longrightarrow> okcast u \<Longrightarrow> P (begin_async (CVote u) (emit (OJournal (SaveOurVote u)) e))"
    and quiet: "okout (OTrace clk ev)" "okout (OObtained cert)" "okout (OSend (ToRandom slot wire))"
      "okout (OSend (ToValidators wire))" "okout (OJournal (SaveCertificate cert))"
      "okout (OJournal (SaveFirstNonAnnouncedWindow slot))"
begin

lemmas closed = fatal_closed slots_closed now_closed final_closed final_cert_closed
  runs_closed waits_closed broadcasts_closed bans_closed standstill_closed drain_closed cache_closed
  pending_closed verify_closed own_closed stats_closed

lemma emit: "P e \<Longrightarrow> okout x \<Longrightarrow> P (emit x e)"
  by (simp add: emit_def outs_closed)

lemma prim:
  "P e \<Longrightarrow> P (trace C ev e)" "P e \<Longrightarrow> P (enqueue f e)" "P e \<Longrightarrow> P (fatal err e)"
  "P e \<Longrightarrow> P (count g e)" "P e \<Longrightarrow> P (reportMisbehavior idx m e)"
  "P e \<Longrightarrow> P (ban p e)" "P e \<Longrightarrow> P (drop_message e)" "P e \<Longrightarrow> P (put_pool_slot i s e)"
  "P e \<Longrightarrow> P (noteOwnCandidate cid e)" "P e \<Longrightarrow> P (noteOwnCandidateVote C idx v e)"
  "P e \<Longrightarrow> P (reportOwnCandidateNotarized cert e)"
  by (simp_all add: trace_def enqueue_def fatal_def count_def reportMisbehavior_def ban_def
      drop_message_def put_pool_slot_def noteOwnCandidate_def noteOwnCandidateVote_def
      reportOwnCandidateNotarized_def Let_def closed emit quiet split: option.split)

lemma starts: "P e \<Longrightarrow> (\<And>v. c \<noteq> CVote v) \<Longrightarrow> P (begin_async c e)"
  by (simp add: begin_async_def begin_closed)

lemma at: "at_slot C i e = (r, e') \<Longrightarrow> P e \<Longrightarrow> P e'"
  by (auto simp: at_slot_def Let_def closed split: prod.splits)

lemma payload: "votePayload C v e = (b, e') \<Longrightarrow> P e \<Longrightarrow> P e'"
  by (auto simp: votePayload_def Let_def closed split: option.splits prod.splits if_splits)

lemma banned: "isBanned p e = (b, e') \<Longrightarrow> P e \<Longrightarrow> P e'"
  by (auto simp: isBanned_def closed split: option.splits if_splits)

lemma handleCertificate: "P e \<Longrightarrow> P (handleCertificate C vc e)"
  by (auto simp: handleCertificate_def Let_def prim starts emit quiet dest: at split: option.split prod.split)

lemma applyVote: "applyVote C idx v sig tol e = (b, e') \<Longrightarrow> P e \<Longrightarrow> P e'"
  by (auto simp: applyVote_def onVoteApplied_def Let_def prim handleCertificate dest: at
      split: option.splits prod.splits if_splits)

lemma wait_for_skips: "wait_for_skips C cand e = (d, out, e') \<Longrightarrow> P e \<Longrightarrow> P e'"
  by (auto simp: wait_for_skips_def Let_def prim dest: at split: if_splits option.splits prod.splits)

lemma evaluateParentWait: "evaluateParentWait C cand e = (d, out, e') \<Longrightarrow> P e \<Longrightarrow> P e'"
  by (auto simp: evaluateParentWait_def Let_def prim dest: at wait_for_skips
      split: if_splits option.splits prod.splits)

lemma registerParentWait: "P e \<Longrightarrow> P (registerParentWait C c e)"
  by (auto simp: registerParentWait_def prim closed dest: evaluateParentWait split: prod.split)

lemma resolve_waits: "resolve_waits C i ws e = (ws', e') \<Longrightarrow> P e \<Longrightarrow> P e'"
proof (induction C i ws e rule: resolve_waits.induct)
  case (1 C i ws e)
  obtain d out e1 where ev: "evaluateParentWait C (ws ! i) e = (d, out, e1)" by (metis prod_cases3)
  have e1: "P e1" using evaluateParentWait [OF ev "1.prems"(2)] .
  show ?case
  proof (cases "i < length ws")
    case True
    note step = resolve_waits.simps [of C i ws e] ev True
    show ?thesis
    proof (cases d)
      case False
      then show ?thesis using "1.IH"(1) [OF True ev [symmetric] refl] "1.prems"(1) e1 by (simp add: step)
    next
      case d: True
      then show ?thesis
        using "1.IH"(2) [OF True ev [symmetric] refl] "1.prems"(1) e1 by (simp add: step prim)
    qed
  qed (use "1.prems" resolve_waits.simps [of C i ws e] in simp)
qed

lemma resolveParentWaits: "P e \<Longrightarrow> P (resolveParentWaits C e)"
  by (auto simp: resolveParentWaits_def Let_def closed dest: resolve_waits split: prod.split)

lemma nextNonSkipped: "nextNonSkippedSlotAfter C i e = (r, e') \<Longrightarrow> P e \<Longrightarrow> P e'"
  by (auto simp: nextNonSkippedSlotAfter_def Let_def dest: at split: if_splits option.splits prod.splits)

lemma add_base: "P e \<Longrightarrow> P (add_base C i p e)"
  by (auto simp: add_base_def prim dest: at split: option.split prod.split)

end

locale pool_frame = update_frame +
  assumes advancePresent: "P e \<Longrightarrow> P (advancePresent C e)"
begin

lemma onNotarCertificate: "P e \<Longrightarrow> P (onNotarCertificate C vc e)"
  by (auto simp: onNotarCertificate_def Let_def intro!: advancePresent add_base prim
      dest!: nextNonSkipped split: sum.split prod.split)

lemma onSkipCertificate: "P e \<Longrightarrow> P (onSkipCertificate C s cert e)"
  by (auto simp: onSkipCertificate_def Let_def closed intro!: advancePresent add_base prim
      dest!: nextNonSkipped split: sum.split prod.split option.split)

lemma move_horizon: "P e \<Longrightarrow> P (move_horizon i vc e)"
  by (simp add: move_horizon_def Let_def prim closed)

lemma finalize_slot: "P e \<Longrightarrow> P (finalize_slot C i vc e)"
  by (simp add: finalize_slot_def Let_def move_horizon advancePresent closed)

lemma onFinalCertificate: "P e \<Longrightarrow> P (onFinalCertificate C s vc e)"
  by (auto simp: onFinalCertificate_def Let_def intro!: finalize_slot add_base prim
      dest!: nextNonSkipped split: sum.split prod.split)

lemma record_certificate: "P e \<Longrightarrow> P (record_certificate C s cert e)"
  by (simp add: record_certificate_def Let_def prim emit quiet)

lemma storeSavedCertificate: "P e \<Longrightarrow> P (storeSavedCertificate C s vc e)"
  by (auto simp: storeSavedCertificate_def apply_certificate_def Let_def prim resolveParentWaits
      onNotarCertificate onSkipCertificate onFinalCertificate record_certificate split: voteKind.split)

lemma extract_votes: "extract_votes C cert xs s e = (s', e') \<Longrightarrow> P e \<Longrightarrow> P e'"
proof (induction xs arbitrary: s e)
  case (Cons x xs)
  then show ?case by (auto simp: Let_def prim split: prod.splits option.splits)
qed simp

lemma finishCertificateSave: "P e \<Longrightarrow> P (finishCertificateSave C vc err e)"
  by (auto simp: finishCertificateSave_def prim intro!: storeSavedCertificate dest!: extract_votes dest: at
      split: option.split prod.split)

text \<open>Casting and signing votes.\<close>

lemma finishVoteCast:
  "P e \<Longrightarrow> okout (OSign v) \<Longrightarrow> (\<And>wire. okout (OSend (ToAll wire))) \<Longrightarrow> P (finishVoteCast C v replay e)"
  by (auto simp: finishVoteCast_def Let_def intro!: prim emit dest!: payload applyVote
      split: sum.split prod.split)

lemma castVote:
  "P e \<Longrightarrow> okcast v \<Longrightarrow> P (castVote C v False e)"
  by (simp add: castVote_def Let_def prim cast_closed)

lemma replayVote:
  "P e \<Longrightarrow> okout (OSign v) \<Longrightarrow> (\<And>wire. okout (OSend (ToAll wire))) \<Longrightarrow> P (castVote C v True e)"
  by (simp add: castVote_def Let_def prim finishVoteCast)

lemma replay_votes:
  assumes "P e" and "\<And>v. v \<in> set vs \<Longrightarrow> okout (OSign v)" and "\<And>wire. okout (OSend (ToAll wire))"
  shows "P (replay_votes C vs e)"
  using assms(1,2) by (induction vs arbitrary: e) (simp_all add: replayVote assms(3))

lemma replay_certificates: "replay_certificates C vcs e = (r, e') \<Longrightarrow> P e \<Longrightarrow> P e'"
proof (induction vcs arbitrary: e)
  case (Cons vc vcs)
  then show ?case
    by (auto simp: Let_def storeSavedCertificate dest: at split: prod.splits option.splits if_splits)
qed simp

text \<open>Messages, standstill and parameters.\<close>

lemma verifyCertificate: "verifyCertificate C cert e = (r, e') \<Longrightarrow> P e \<Longrightarrow> P e'"
  by (auto simp: verifyCertificate_def dest: payload split: sum.splits prod.splits)

lemma handle_vote_message: "P e \<Longrightarrow> P (handle_vote_message C src srcV data e)"
  by (auto simp: handle_vote_message_def Let_def prim closed dest: at payload
      split: sum.split prod.split option.split)

lemma handle_certificate_message:
  assumes "P e"
  shows "P (handle_certificate_message C src data e)"
proof -
  have pre: "P (snd (case at_slot C i e of (None, e1) \<Rightarrow> (False, e1) | (Some s, e1) \<Rightarrow> (needs s v, e1)))" for i v
    using at [of C i e] assms by (auto split: prod.split option.split)
  have "P (case verifyCertificate C cert e of
      (Inl err, e2) \<Rightarrow> ban src e2
    | (Inr vc, e2) \<Rightarrow>
        if tooNew then (case at_slot C i e2 of
            (None, e3) \<Rightarrow> e3
          | (Some s, e3) \<Rightarrow> if \<not> needs s v then e3 else handleCertificate C vc e3)
        else handleCertificate C vc e2)" if "P e" for cert e tooNew i v
    using that by (auto simp: prim handleCertificate dest: at verifyCertificate split: prod.split sum.split option.split)
  then show ?thesis
    using assms pre unfolding handle_certificate_message_def Let_def
    by (auto intro: prim split: sum.split option.split)
qed

lemma handleMessage: "P e \<Longrightarrow> P (handleMessage C src srcV data e)"
  by (auto simp: handleMessage_def prim handle_vote_message handle_certificate_message dest: banned
      split: prod.split bool.split)

lemma apply_verified: "P e \<Longrightarrow> P (apply_verified C t p e)"
  by (auto simp: apply_verified_def intro!: prim dest!: banned at applyVote
      split: prod.split bool.split option.split)

lemma apply_batch: "P e \<Longrightarrow> P (apply_batch C t ps e)"
  by (induction ps arbitrary: e) (simp_all add: apply_verified)

lemma flushVerify: "P e \<Longrightarrow> P (flushVerify C e)"
  by (simp add: flushVerify_def Let_def apply_batch closed)

lemma drain_loop: "P e \<Longrightarrow> P (drain_loop C t rate d e)"
proof (induction C t rate d e rule: drain_loop.induct)
  case (1 C t rate d e)
  then show ?case by (subst drain_loop.simps) (auto simp: Let_def closed emit quiet)
qed

lemma stepDrain: "P e \<Longrightarrow> P (stepDrain C t e)"
  by (simp add: stepDrain_def drain_loop closed split: option.split)

lemma fireStandstill: "P e \<Longrightarrow> P (fireStandstill C t e)"
  by (simp add: fireStandstill_def startDrain_def Let_def prim closed stepDrain)

lemma due: "P e \<Longrightarrow> P (due_standstill C t e)" "P e \<Longrightarrow> P (due_drain C t e)"
  by (simp_all add: due_standstill_def due_drain_def fireStandstill stepDrain split: option.split)

end

text \<open>Properties that do not depend on the present slot and the announced windows.\<close>

locale frame = update_frame +
  assumes window_closed: "P e \<Longrightarrow> P (e\<lparr>firstNonAnnouncedWindow := wd\<rparr>)"
    and timers_closed: "P e \<Longrightarrow> P (e\<lparr>voter := map_option (voterWindowObserved C slot clk ps) (voter e)\<rparr>)"
begin

lemma announce: "P e \<Longrightarrow> P (announce C b e)"
  by (simp add: announce_def windowObserved_def Let_def prim starts emit quiet timers_closed)

lemma advance_loop: "P e \<Longrightarrow> P (advance_loop n C e)"
  by (induction n arbitrary: e)
    (auto simp: advance_loop.simps prim closed dest: at split: option.split prod.split)

lemma advance_step: "P e \<Longrightarrow> P (advancePresent C e)"
  by (auto simp: advancePresent_def announce_at_def Let_def prim closed window_closed announce advance_loop
      dest: at split: option.split prod.split)

end

sublocale frame \<subseteq> pool_frame
  by unfold_locales (rule advance_step)

text \<open>Properties that do not depend on the votes the voter keeps either.\<close>

locale voter_frame = pool_frame +
  assumes voter_closed: "P e \<Longrightarrow> P (e\<lparr>voter := map_option vg (voter e)\<rparr>)"
begin

lemma modify_voter: "P e \<Longrightarrow> P (modify_voter g e)" "P e \<Longrightarrow> P (put_voter_slot i s e)"
  by (simp_all add: modify_voter_def put_voter_slot_def voter_closed)

lemma voter_at: "voter_at i e = (r, e') \<Longrightarrow> P e \<Longrightarrow> P e'"
proof -
  assume "voter_at i e = (r, e')" and P: "P e"
  then have "e' = e \<or> e' = e\<lparr>voter := map_option (\<lambda>v. v\<lparr>v_slots := snd (slot_at newVoterSlot i (v_slots v))\<rparr>) (voter e)\<rparr>"
    by (auto simp: voter_at_def split: option.splits prod.splits)
  then show ?thesis using P voter_closed by auto
qed

lemma tryVoteFinal: "P e \<Longrightarrow> (\<And>v. okcast v) \<Longrightarrow> P (tryVoteFinal C i s e)"
  by (simp add: tryVoteFinal_def modify_voter castVote split: option.split)

lemma maybeVoteNotar: "P e \<Longrightarrow> (\<And>v. okcast v) \<Longrightarrow> P (maybeVoteNotar C i s e)"
  by (simp add: maybeVoteNotar_def Let_def modify_voter castVote tryVoteFinal)

lemma slot_ops:
  assumes "P e" and "\<And>v. okcast v"
  shows "P (skip_slot C i e)" and "P (restore_vote v e)" and "P (reserve_skip i e)" and "P (startup_skip C i e)"
  using assms by (auto simp: skip_slot_def restore_vote_def reserve_skip_def startup_skip_def modify_voter castVote
      dest: voter_at split: prod.split option.split voteKind.split)

lemma foldl: "(\<And>e x. P e \<Longrightarrow> P (f e x)) \<Longrightarrow> P e \<Longrightarrow> P (foldl f e xs)"
  by (induction xs arbitrary: e) auto

lemma voter_ops:
  assumes "P e" and out: "\<And>v. okcast v"
  shows "P (voterNotarizationObserved C cid e)" and "P (voterFinalizationObserved cid e)"
    and "P (fireVoterAlarm C e)" and "P (bootstrapVoter C vs e)" and "P (castStartupWindowSkips C e)"
    and "P (acceptCandidate C c e)" and "P (onParentWaitDone C c out e)"
    and "P (completeValidation C cid vd e)" and "P (completeStore C cid err e)"
proof -
  note ops = slot_ops [OF _ out]
  show "P (voterFinalizationObserved cid e)" "P (fireVoterAlarm C e)" "P (bootstrapVoter C vs e)"
    "P (castStartupWindowSkips C e)"
    using assms(1) by (simp_all add: voterFinalizationObserved_def fireVoterAlarm_def bootstrapVoter_def
        castStartupWindowSkips_def Let_def modify_voter foldl ops split: option.split)
  show "P (voterNotarizationObserved C cid e)" "P (acceptCandidate C c e)"
    "P (onParentWaitDone C c out e)"
    using assms(1) by (auto simp: voterNotarizationObserved_def acceptCandidate_def onParentWaitDone_def Let_def
        intro!: modify_voter tryVoteFinal out registerParentWait prim dest: voter_at
        split: prod.split option.split waitOutcome.split)
  show "P (completeValidation C cid vd e)" "P (completeStore C cid err e)"
    using assms(1) by (auto simp: completeValidation_def completeStore_def Let_def
        intro!: modify_voter maybeVoteNotar out prim dest: voter_at
        split: prod.split option.split verdict.split)
qed

lemma drainPending:
  assumes "P e" and out: "\<And>v. okcast v" "\<And>h. okout (OHook h)"
  shows "P (drainPending C e)"
proof (rule drainPending_induct [where P = P])
  fix e f fs assume "P e" "pending e = f # fs"
  then show "P (run_notice C f (e\<lparr>pending := fs\<rparr>))"
    by (cases f) (simp_all add: run_notice_def closed prim starts emit out voter_ops)
qed (rule assms(1))

end

locale full_frame = frame +
  assumes any_voter_closed: "P e \<Longrightarrow> P (e\<lparr>voter := map_option vg (voter e)\<rparr>)"

sublocale full_frame \<subseteq> voter_frame
  by unfold_locales (rule any_voter_closed)

text \<open>Properties that every input keeps, except for the votes it may sign.\<close>

locale life_frame = full_frame +
  assumes started_closed: "P e \<Longrightarrow> P (e\<lparr>started := bb\<rparr>)" and stopped_closed: "P e \<Longrightarrow> P (e\<lparr>stopped := bb\<rparr>)"
    and suppress_closed: "P e \<Longrightarrow> P (e\<lparr>suppressCertBroadcast := bb\<rparr>)"
    and clock_closed: "P e \<Longrightarrow> P (e\<lparr>clock := tt\<rparr>)" and params_closed: "P e \<Longrightarrow> P (e\<lparr>e_params := pp\<rparr>)"
    and remove_closed: "P e \<Longrightarrow> P (e\<lparr>inflight := remove1 cc (inflight e)\<rparr>)"
    and casts: "okcast vv" and hooks: "okout (OHook hh)"
begin

lemmas drains = drainPending [OF _ casts hooks]
lemmas votes_ops = voter_ops [OF _ casts]

lemma async:
  "(\<And>e. P e \<Longrightarrow> P (action e)) \<Longrightarrow> P e \<Longrightarrow> P (completeAsync C action e)"
  "(\<And>e. P e \<Longrightarrow> P (action e)) \<Longrightarrow> P e \<Longrightarrow> P (run C action e)"
  by (simp_all add: completeAsync_def run_def drains)

lemma timers: "P e \<Longrightarrow> P (advance_timers C e)"
proof -
  have "P e \<Longrightarrow> P (due_alarm C t e)" for t e by (simp add: due_alarm_def votes_ops split: option.split)
  then show "P e \<Longrightarrow> ?thesis" by (simp add: advance_timers_def Let_def due flushVerify)
qed

lemma SubmitCandidate: "P e \<Longrightarrow> P (snd (SubmitCandidate C c e))"
  by (auto simp: SubmitCandidate_def Let_def intro!: async votes_ops split: sum.split option.split)

lemma handle:
  assumes "P e" and sign: "\<And>e v. P e \<Longrightarrow> ev = IVoteSaved v None \<Longrightarrow> P (finishVoteCast C v False e)"
  shows "P (handle C ev e)"
proof (cases ev)
  case (IVoteSaved v err)
  have "P (vote_saved C v err e)" if "P e" for e
    using that sign IVoteSaved by (cases err) (simp_all add: vote_saved_def prim)
  then show ?thesis using IVoteSaved assms(1) by (simp add: handle_def async)
next
  case (IWindowSaved w err)
  have "P (window_saved err e)" if "P e" for e
    using that by (simp add: window_saved_def prim split: option.split)
  then show ?thesis using IWindowSaved assms(1) by (simp add: handle_def async)
next
  case (IPrecheck i b ch)
  then show ?thesis using assms(1) by (simp add: handle_def PrecheckCandidateBroadcast_def closed)
next
  case (IParams p)
  then show ?thesis using assms(1) by (simp add: handle_def UpdateParams_def params_closed split: sum.split)
qed (use assms(1) in \<open>auto simp: handle_def HandleMessage_def handleMessageBatched_def FlushVerify_def Advance_def
      Stop_def SubmitCandidate stopped_closed closed
      intro!: async flushVerify handleMessage timers finishCertificateSave votes_ops\<close>)

lemma turn:
  assumes "P e" and "\<And>e v. P e \<Longrightarrow> snd x = IVoteSaved v None \<Longrightarrow> P (finishVoteCast C v False e)"
  shows "P (turn C x e)"
proof -
  have "P (take_completion (snd x) (e\<lparr>clock := fst x\<rparr>))"
    using assms(1) clock_closed remove_closed [OF clock_closed] by (auto simp: take_completion_def split: option.split)
  then show ?thesis unfolding turn_def by (rule handle) (rule assms(2))
qed

lemma start:
  assumes "P e0" and "Start C journal handed e0 = (r, e)"
    and sign: "\<And>e v vb bs. P e \<Longrightarrow> load_bootstrap C journal handed = Inr vb \<Longrightarrow> vb_state vb = Some bs \<Longrightarrow>
      v \<in> set (bs_OurVotes bs) \<Longrightarrow> P (finishVoteCast C v True e)"
  shows "P e"
proof (cases "load_bootstrap C journal handed")
  case (Inl err)
  then show ?thesis using assms(1,2) by (auto simp: Start_def split: if_splits)
next
  case (Inr vb)
  show ?thesis
  proof (cases "vb_state vb")
    case None
    then show ?thesis using assms(1,2) Inr by (auto simp: Start_def split: if_splits)
  next
    case (Some bs)
    have replay: "P (replay_votes C vs e)" if "P e" "set vs \<subseteq> set (bs_OurVotes bs)" for vs e
      using that by (induction vs arbitrary: e) (auto simp: castVote_def Let_def prim sign [OF _ Inr Some])
    obtain q e4 where q: "replay_certificates C (vb_sealed vb) (recover C bs e0) = (q, e4)" by fastforce
    have "P (recover C bs e0)" using assms(1) by (simp add: recover_def Let_def add_base votes_ops closed window_closed)
    then have e4: "P e4" using replay_certificates [OF q] by simp
    have "P (begin_session C e)" if "P e" for e
      using that by (simp add: begin_session_def Let_def drains advancePresent prim closed started_closed votes_ops)
    then have "P (begin_session C (replay_votes C (bs_OurVotes bs) (drainPending C (e4\<lparr>suppressCertBroadcast := False\<rparr>))))"
      using e4 by (simp add: replay drains suppress_closed)
    then show ?thesis
      using assms(1,2) e4 Inr Some q by (auto simp: Start_def Let_def split: if_splits option.splits)
  qed
qed

end

section \<open>What the inputs leave alone\<close>

text \<open>The output log only grows; an acknowledged vote write was submitted.\<close>

interpretation log: life_frame "\<lambda>e. old \<subseteq> set (outs e)" "\<lambda>_. True" "\<lambda>_. True" for old
  by unfold_locales (auto simp: emit_def begin_async_def)

definition writes_submitted :: "engine \<Rightarrow> bool" where
  "writes_submitted e \<longleftrightarrow> (\<forall>v. CVote v \<in> set (inflight e) \<longrightarrow> OJournal (SaveOurVote v) \<in> set (outs e))"

interpretation submitted: life_frame writes_submitted "\<lambda>_. True" "\<lambda>_. True"
  by unfold_locales (auto simp: writes_submitted_def emit_def begin_async_def dest: notin_set_remove1)

lemma outs_grow: "set (outs e) \<subseteq> set (outs (turn C x e))"
  by (rule log.turn) (simp, rule log.finishVoteCast, simp_all)

end
