(* ===== verification/EngineDemo.thy ===== *)
theory EngineDemo
  imports EngineRun
begin

text \<open>
  A concrete session, evaluated by the simplifier: one validator of weight one that is its own
  quorum, two slots per leader window. It notarizes and finalizes a candidate for slot 0. The
  witnesses of the engine properties run it.
\<close>

definition solo_key :: bytes where
  "solo_key = replicate 32 1"

definition solo_sig :: bytes where
  "solo_sig = solo_key @ solo_key"

definition solo_ext :: ext where
  "solo_ext = (demo_ext solo_key)\<lparr>
     ed25519_Verify := \<lambda>pk msg sig. sig = pk @ pk,
     sha256_Sum256 := \<lambda>b. 9,
     tl_Serialize := \<lambda>x. [],
     signer_Sign := \<lambda>msg. Inr solo_sig\<rparr>"

definition solo_params :: params where
  "solo_params = \<lparr>TargetRate = 5, FirstBlockTimeout = 10, FirstBlockTimeoutMultiplier = Fin 1,
     FirstBlockTimeoutCap = 100, CandidateResolveTimeout = 10, CandidateResolveTimeoutMultiplier = Fin 1,
     CandidateResolveTimeoutCap = 100, CandidateResolveCooldown = 1, CandidateResolveRateLimit = 10,
     StandstillTimeout = 1000, StandstillMaxEgressBytesPerS = 100, StandstillMinEgressBytesPerS = 1,
     MaxLeaderWindowDesync = 3, BadSignatureBanDuration = 5, MinBlockInterval = 0,
     NoEmptyBlocksOnErrTimeout = 15, CertificateGossipNeighbors = 2\<rparr>"

definition solo_roster :: "validator list" where
  "solo_roster = [\<lparr>PublicKey = solo_key, Weight = 1\<rparr>]"

definition solo_cfg :: sessionConfig where
  "solo_cfg = \<lparr>sc_SessionID = 7, sc_ProtocolVersion = 1, sc_Validators = solo_roster, sc_LocalIndex = 0,
     sc_SlotsPerLeaderWindow = 2, sc_ShardPrefixLen = 0, sc_Workchain = 0, sc_Shard = 0, sc_CCSeqno = 1,
     sc_Params = Some solo_params, sc_Schedule = Some (\<lambda>_. 0), sc_Journal = True, sc_Transport = True,
     sc_Hooks = True, sc_Tracer = False, sc_Signer = True\<rparr>"

definition solo_binding :: certificateBinding where
  "solo_binding = CertificateBinding 7 9"

definition solo_C :: config where
  "solo_C = \<lparr>cf_ext = solo_ext,
     certs = \<lparr>cv_binding = solo_binding, cv_validators = solo_roster, cv_threshold = 1\<rparr>,
     totalWeight = 1, localIndex = 0, spw = 2, shardPfxLen = 0, maxCertWire = 144, schedule = \<lambda>_. 0,
     tracing = False, workchain = 0, shard = 0, ccSeqno = 1\<rparr>"

definition solo_journal :: bootstrapState where
  "solo_journal = \<lparr>bs_FirstNonAnnouncedWindow = 0, bs_OurVotes = [], bs_Certificates = []\<rparr>"

definition no_bootstrap :: validatedBootstrap where
  "no_bootstrap = \<lparr>vb_state = None, vb_binding = CertificateBinding 0 0, vb_sealed = []\<rparr>"

lemma solo_lengths [simp]: "length solo_key = 32" "length solo_sig = 64" "length solo_roster = 1"
  by (simp_all add: solo_key_def solo_sig_def solo_roster_def)

lemma solo_ext_simps [simp]:
  "ed25519_Verify solo_ext pk msg sig \<longleftrightarrow> sig = pk @ pk" "sha256_Sum256 solo_ext b = 9"
  "tl_Serialize solo_ext x = []" "signer_Sign solo_ext msg = Inr solo_sig"
  by (simp_all add: solo_ext_def)

lemma solo_C_simps [simp]:
  "cf_ext solo_C = solo_ext" "certs solo_C = \<lparr>cv_binding = solo_binding, cv_validators = solo_roster, cv_threshold = 1\<rparr>"
  "localIndex solo_C = 0" "spw solo_C = 2" "schedule solo_C i = 0" "tracing solo_C = False"
  by (simp_all add: solo_C_def)

lemma solo_weight: "totalValidatorWeight solo_roster = Inr 1"
  by code_simp

lemma solo_binds: "NewCertificateBinding solo_ext 7 solo_roster = Inr solo_binding"
  by (simp add: NewCertificateBinding_def RosterDigest_def roster_preimage_def
      solo_roster_def ed25519_PublicKeySize_def solo_binding_def)

lemma solo_verifier: "NewCertificateVerifier solo_ext 7 solo_roster = Inr (certs solo_C)"
proof -
  have "solo_roster \<noteq> []" by (simp add: solo_roster_def)
  then show ?thesis
    by (simp add: NewCertificateVerifier_def cloneValidators_def solo_weight solo_binds Let_def)
qed

lemma solo_NewEngine: "NewEngine solo_ext solo_cfg 100 = Inr (solo_C, newEngineState solo_params 0 100)"
proof -
  have p: "probeSignerIdentity solo_ext solo_key 7 = Inr ()"
    by (simp add: probeSignerIdentity_def ed25519_PublicKeySize_def ed25519_SignatureSize_def solo_sig_def)
  have key: "solo_roster ! 0 = \<lparr>PublicKey = solo_key, Weight = 1\<rparr>" "solo_roster \<noteq> []" by (simp_all add: solo_roster_def)
  have q: "validate_params solo_params = Inr ()"
    by (simp add: validate_params_def solo_params_def f64_le_def f64_finite_def)
  show ?thesis
    by (simp add: NewEngine_def solo_cfg_def key solo_weight solo_verifier p q ObserverIndex_def MaxProtocolVersion_def)
      (simp add: solo_C_def q)
qed


text \<open>The engine after \<open>Start\<close>: window 0 is announced.\<close>

definition solo_window :: window where
  "solo_window = \<lparr>w_Base = Genesis, w_ObservedSlot = 0, w_StartSlot = 0, w_EndSlot = 2, w_Leader = 0,
     w_LocalLeader = True, w_ObservedAt = 100, w_FirstBlockTimeout = 10\<rparr>"

definition solo_slot :: poolSlot where
  "solo_slot = (newPoolSlot 1)\<lparr>availableBase := Some Genesis\<rparr>"

definition solo_voter :: voterState where
  "solo_voter = (newVoterState 10)\<lparr>timeoutSlot := 1, timeoutBase := 110, alarmAt := 115, alarmArmed := True\<rparr>"

definition solo_e0 :: engine where
  "solo_e0 = (newEngineState solo_params 0 100)\<lparr>started := True, suppressCertBroadcast := False,
     e_slots := newSlotMap\<lparr>slots := [(0, solo_slot)]\<rparr>, firstNonAnnouncedWindow := 1, standstillAt := 1100,
     voter := Some solo_voter, inflight := [CWindow 1],
     outs := [OJournal (SaveFirstNonAnnouncedWindow 1), OHook (HWindow solo_window)]\<rparr>"

lemmas engine_ops = failed_def fatal_def emit_def trace_def enqueue_def begin_async_def count_def
  at_slot_def slot_at_def put_pool_slot_def put_slot_def voter_at_def modify_voter_def put_voter_slot_def
  drainPending.simps run_notice_def newSlotMap_def Let_def

lemma solo_Start:
  "Start solo_C (Inr (Some solo_journal)) no_bootstrap (newEngineState solo_params 0 100) = (None, solo_e0)"
proof -
  let ?e = "newEngineState solo_params 0 100" and ?vb = "\<lparr>vb_state = Some solo_journal, vb_binding = solo_binding, vb_sealed = []\<rparr>"
  let ?e1 = "?e\<lparr>e_slots := newSlotMap\<lparr>slots := [(0, solo_slot)]\<rparr>\<rparr>"
  have flags: "started ?e = False" "stopped ?e = False" "fatalErr solo_e0 = None"
    by (simp_all add: newEngineState_def solo_e0_def)
  have votes: "bs_OurVotes solo_journal = []" by (simp add: solo_journal_def)
  have sid: "cb_sessionID solo_binding = 7" by (simp add: solo_binding_def)
  have load: "load_bootstrap solo_C (Inr (Some solo_journal)) no_bootstrap = Inr ?vb"
    by (simp add: load_bootstrap_def bootstrap_matches_def no_bootstrap_def ValidateBootstrap_def
       solo_binds sid Let_def) (simp add: solo_journal_def cloneBootstrapState_def)
  have rec: "recover solo_C solo_journal ?e = ?e1"
    by (simp add: recover_def solo_journal_def newEngineState_def engine_ops bootstrapVoter_def add_base_def
       addAvailableBase_def solo_slot_def newPoolSlot_def)
  have e2: "drainPending solo_C (?e1\<lparr>suppressCertBroadcast := False\<rparr>) = ?e1\<lparr>suppressCertBroadcast := False\<rparr>"
    by (simp add: newEngineState_def engine_ops)
  have "begin_session solo_C (?e1\<lparr>suppressCertBroadcast := False\<rparr>) = solo_e0"
    by (simp add: begin_session_def newEngineState_def engine_ops castStartupWindowSkips_def advancePresent_def
       advance_loop.simps settled_def solo_slot_def newPoolSlot_def announce_at_def announce_def windowObserved_def
       voterWindowObserved_def newVoterState_def solo_params_def solo_e0_def solo_voter_def solo_window_def ObserverIndex_def)
  then show ?thesis
    using load rec e2 by (simp add: Start_def votes flags Let_def)
qed

lemma solo_boot: "session solo_C solo_journal [] solo_e0"
  by (rule session.boot [OF solo_NewEngine _ solo_Start]) (simp add: handed_ok_def no_bootstrap_def)

section \<open>A candidate for slot 0\<close>

abbreviation solo_id :: candidateID where
  "solo_id \<equiv> CandidateID 0 9"

definition solo_cand :: candidate where
  "solo_cand = \<lparr>c_ID = solo_id, c_Parent = Genesis, c_Leader = 0, c_Empty = False,
     c_Block = \<lparr>bi_Workchain = 0, bi_Shard = 0, bi_SeqNo = 1, bi_RootHash = solo_key, bi_FileHash = solo_key\<rparr>,
     c_CollatedFileHash = 5, c_Signature = solo_sig, c_Delegation = None\<rparr>"

lemma solo_cand_simps [simp]:
  "c_ID solo_cand = solo_id" "c_Parent solo_cand = Genesis" "c_Leader solo_cand = 0"
  by (simp_all add: solo_cand_def)

definition solo_vslot :: voterSlot where
  "solo_vslot = newVoterSlot\<lparr>vs_pending := Some solo_cand, storeInFlight := True, validationInFlight := True\<rparr>"

definition solo_e1 :: engine where
  "solo_e1 = solo_e0\<lparr>clock := 101, voter := Some (solo_voter\<lparr>v_slots := newSlotMap\<lparr>slots := [(0, solo_vslot)]\<rparr>\<rparr>),
     ownCandidates := [(solo_id, \<lparr>acceptedAt = 101, firstVoteAt = 0, firstVoter = 0\<rparr>)],
     e_stats := zeroStats\<lparr>CandidatesAccepted := 1\<rparr>,
     inflight := [CWindow 1, CStore solo_id, CValidate solo_id],
     outs := outs solo_e0 @ [OHook (HStore solo_cand), OHook (HValidate solo_cand)]\<rparr>"

lemmas solo_turn = turn_def take_completion_def handle_def run_def completeAsync_def engine_ops newEngineState_def

lemma solo_1: "turn solo_C (101, ICandidate solo_cand) solo_e0 = solo_e1"
proof -
  have cid: "solo_cand\<lparr>c_ID := ComputeID solo_ext solo_cand 0\<rparr> = solo_cand"
    by (simp add: ComputeID_def solo_cand_def)
  have shape: "ValidateShape solo_cand = Inr ()" by (simp add: ValidateShape_def solo_cand_def Genesis_def)
  have sigd: "c_Delegation solo_cand = None" "c_Signature solo_cand = solo_key @ solo_key"
    by (simp_all add: solo_cand_def solo_sig_def)
  have key: "solo_roster ! 0 = \<lparr>PublicKey = solo_key, Weight = 1\<rparr>" by (simp add: solo_roster_def)
  have "SubmitCandidate solo_C solo_cand (solo_e0\<lparr>clock := 101\<rparr>) = (Inr (), run solo_C (acceptCandidate solo_C solo_cand) (solo_e0\<lparr>clock := 101\<rparr>))"
    by (simp add: SubmitCandidate_def shape cid sigd key VerifyCandidateSignature_def ed25519_SignatureSize_def)
     (simp add: solo_e0_def failed_def newEngineState_def)
  moreover have "run solo_C (acceptCandidate solo_C solo_cand) (solo_e0\<lparr>clock := 101\<rparr>) = solo_e1"
    by (simp add: run_def engine_ops newEngineState_def acceptCandidate_def solo_e0_def solo_e1_def solo_voter_def newVoterState_def
     newVoterSlot_def solo_params_def noteOwnCandidate_def ownCandidateTimingLimit_def registerParentWait_def evaluateParentWait_def
     next_after_parent_def Genesis_def solo_slot_def newPoolSlot_def notarizedBlock_def wait_for_skips_def onParentWaitDone_def
     solo_vslot_def zeroStats_def)
  ultimately show ?thesis by (simp add: turn_def take_completion_def handle_def)
qed

definition solo_e2 :: engine where
  "solo_e2 = solo_e1\<lparr>clock := 102, inflight := [CWindow 1, CValidate solo_id],
     voter := Some (solo_voter\<lparr>v_slots := newSlotMap\<lparr>slots := [(0, solo_vslot\<lparr>storeInFlight := False, stored := True\<rparr>)]\<rparr>\<rparr>)\<rparr>"

definition solo_vslot3 :: voterSlot where
  "solo_vslot3 = newVoterSlot\<lparr>vs_pending := Some solo_cand, stored := True, validated := True, votedNotar := Some solo_id\<rparr>"

definition solo_e3 :: engine where
  "solo_e3 = solo_e1\<lparr>clock := 103, inflight := [CWindow 1, CVote (NotarizeVote solo_id)],
     voter := Some (solo_voter\<lparr>v_slots := newSlotMap\<lparr>slots := [(0, solo_vslot3)]\<rparr>\<rparr>),
     outs := outs solo_e1 @ [OJournal (SaveOurVote (NotarizeVote solo_id))]\<rparr>"

lemmas solo_states = solo_e0_def solo_e1_def solo_e2_def solo_e3_def solo_voter_def newVoterState_def newVoterSlot_def
  solo_vslot_def solo_vslot3_def

lemma solo_2: "turn solo_C (102, IStored solo_id None) solo_e1 = solo_e2"
  by (simp add: solo_turn completeStore_def maybeVoteNotar_def solo_states)

lemma solo_3: "turn solo_C (103, IValidated solo_id Accepted) solo_e2 = solo_e3"
  by (simp add: solo_turn completeValidation_def maybeVoteNotar_def tryVoteFinal_def castVote_def solo_states)

definition solo_cert :: "vote \<Rightarrow> certificate" where
  "solo_cert v = \<lparr>cert_Vote = v, cert_Signatures = [\<lparr>vs_ValidatorIndex = 0, vs_Signature = solo_sig\<rparr>]\<rparr>"

definition solo_sealed :: "vote \<Rightarrow> sealed" where
  "solo_sealed v = \<lparr>s_cert = solo_cert v, s_binding = solo_binding\<rparr>"

definition solo_proof :: "vote \<Rightarrow> proven" where
  "solo_proof v = \<lparr>p_fromCert = False, p_vote = v, p_sig = solo_sig, p_cert = None\<rparr>"

definition solo_wire :: "vote \<Rightarrow> bytes" where
  "solo_wire v = SignedVote_Serialize solo_ext \<lparr>sv_ValidatorIndex = 0, sv_Vote = v, sv_Signature = solo_sig\<rparr>"

definition solo_slot4 :: poolSlot where
  "solo_slot4 = solo_slot\<lparr>votes := [no_votes\<lparr>vv_notarize := Some (solo_proof (NotarizeVote solo_id))\<rparr>],
     notarizeWeight := [(solo_id, 1)], notarSaving := True\<rparr>"

definition solo_e4 :: engine where
  "solo_e4 = solo_e3\<lparr>clock := 104, inflight := [CWindow 1, CCert (solo_sealed (NotarizeVote solo_id))],
     payloadCache := [(VoteNotarize, (NotarizeVote solo_id, []))],
     e_slots := newSlotMap\<lparr>slots := [(0, solo_slot4)]\<rparr>,
     e_stats := zeroStats\<lparr>CandidatesAccepted := 1, OwnVotesCast := 1, CertificatesBuilt := 1\<rparr>,
     outs := outs solo_e3 @ [OSign (NotarizeVote solo_id), OJournal (SaveCertificate (solo_cert (NotarizeVote solo_id))),
       OSend (ToAll (solo_wire (NotarizeVote solo_id)))]\<rparr>"

lemmas pool_ops = applyVote_def vv_add_def checkInvariants_def byKind_def set_byKind_def onVoteApplied_def add_weight_def weight_read_def
  handleCertificate_def needs_def willBe_def certByKind_def set_saving_def set_cert_def buildCertificate_def build_signature_def
  sealCertificate_def cloneCertificate_def solo_slot_def newPoolSlot_def no_votes_def solo_proof_def

lemma solo_weight_0 [simp]: "solo_roster ! 0 = \<lparr>PublicKey = solo_key, Weight = 1\<rparr>"
  by (simp add: solo_roster_def)

lemma vote_kinds [simp]: "v_Kind (NotarizeVote i) = VoteNotarize" "v_Kind (FinalizeVote i) = VoteFinalize"
  "v_ID (NotarizeVote i) = i" "v_ID (FinalizeVote i) = i"
  "vote_Slot (NotarizeVote i) = cid_Slot i" "vote_Slot (FinalizeVote i) = cid_Slot i"
  by (simp_all add: NotarizeVote_def FinalizeVote_def vote_Slot_def)

lemma solo_4: "turn solo_C (104, IVoteSaved (NotarizeVote solo_id) None) solo_e3 = solo_e4"
  by (simp add: solo_turn vote_saved_def finishVoteCast_def votePayload_def DataToSign_def 
    noteOwnCandidateVote_def pool_ops solo_states solo_e4_def solo_slot4_def zeroStats_def solo_sealed_def solo_cert_def
    solo_wire_def)

text \<open>The certificate is durable: slot 0 is notarized, the voter casts the finalize vote.\<close>

definition solo_slot5 :: poolSlot where
  "solo_slot5 = solo_slot4\<lparr>notarSaving := False, notarCert := Some (solo_cert (NotarizeVote solo_id))\<rparr>"

definition solo_slot1 :: poolSlot where
  "solo_slot1 = (newPoolSlot 1)\<lparr>availableBase := Some (Parent solo_id)\<rparr>"

definition solo_voter5 :: voterState where
  "solo_voter5 = solo_voter\<lparr>timeoutSlot := 2, alarmAt := 120,
     v_slots := newSlotMap\<lparr>slots := [(0, solo_vslot3\<lparr>vs_notarCert := Some solo_id, votedFinal := True\<rparr>)]\<rparr>\<rparr>"

definition solo_e5 :: engine where
  "solo_e5 = solo_e4\<lparr>clock := 105, inflight := [CWindow 1, CVote (FinalizeVote solo_id)], now := 1,
     e_slots := newSlotMap\<lparr>slots := [(0, solo_slot5), (1, solo_slot1)]\<rparr>, voter := Some solo_voter5, ownCandidates := [],
     e_stats := zeroStats\<lparr>CandidatesAccepted := 1, OwnVotesCast := 1, CertificatesBuilt := 1, CertificatesStored := 1,
       CertificatesByKind := (\<lambda>_. 0)(VoteNotarize := 1), SignaturesByKind := (\<lambda>_. 0)(VoteNotarize := 1), LastSignedSlot := [0]\<rparr>,
     outs := outs solo_e4 @ [OObtained (solo_cert (NotarizeVote solo_id)),
       OSend (ToRandom 2 (Certificate_Serialize solo_ext (solo_cert (NotarizeVote solo_id)))),
       OHook (HNotarized solo_id (solo_sealed (NotarizeVote solo_id))), OJournal (SaveOurVote (FinalizeVote solo_id))]\<rparr>"

lemma no_waits: "parentWaits e = [] \<Longrightarrow> resolveParentWaits C e = e"
  by (simp add: resolveParentWaits_def resolve_waits.simps)

lemmas solo_certs = solo_sealed_def solo_cert_def pool_ops solo_slot4_def zeroStats_def solo_e4_def solo_states engine_ops newEngineState_def

definition solo_recorded :: engine where
  "solo_recorded = solo_e4\<lparr>clock := 105, inflight := [CWindow 1],
     e_slots := newSlotMap\<lparr>slots := [(0, solo_slot5)]\<rparr>, ownCandidates := [],
     e_stats := e_stats solo_e5,
     outs := outs solo_e4 @ [OObtained (solo_cert (NotarizeVote solo_id)),
       OSend (ToRandom 2 (Certificate_Serialize solo_ext (solo_cert (NotarizeVote solo_id))))]\<rparr>"

definition solo_applied :: engine where
  "solo_applied = solo_recorded\<lparr>e_slots := newSlotMap\<lparr>slots := [(0, solo_slot5), (1, solo_slot1)]\<rparr>, now := 1,
     pending := [NNotarized solo_id (solo_sealed (NotarizeVote solo_id)), NVoterNotarization solo_id]\<rparr>"

lemma solo_5a: "record_certificate solo_C solo_slot5 (solo_cert (NotarizeVote solo_id)) (solo_e4\<lparr>clock := 105, inflight := [CWindow 1]\<rparr>)
   = solo_recorded"
  by (simp add: record_certificate_def sign_slots_def solo_recorded_def solo_slot5_def solo_certs solo_e5_def reportOwnCandidateNotarized_def
    solo_params_def)

lemma solo_5b: "onNotarCertificate solo_C (solo_sealed (NotarizeVote solo_id)) solo_recorded = solo_applied"
proof -
  let ?e = "solo_applied\<lparr>e_slots := newSlotMap\<lparr>slots := [(0, solo_slot5), (1, newPoolSlot 1)]\<rparr>, now := 0\<rparr>"
  let ?e' = "solo_applied\<lparr>now := 0\<rparr>"
  have "nextNonSkippedSlotAfter solo_C 0 (enqueue (NVoterNotarization solo_id) (enqueue (NNotarized solo_id (solo_sealed (NotarizeVote solo_id))) solo_recorded))
    = (Inr 1, ?e)"
    by (simp add: solo_applied_def nextNonSkippedSlotAfter_def solo_recorded_def solo_certs)
  moreover have "voter solo_recorded \<noteq> None" by (simp add: solo_recorded_def solo_e4_def solo_states)
  moreover have "add_base solo_C 1 (Parent solo_id) ?e = ?e'"
    by (simp add: add_base_def addAvailableBase_def engine_ops newPoolSlot_def solo_slot1_def solo_applied_def)
  moreover have "advancePresent solo_C ?e' = solo_applied"
  proof -
    have ops: "started ?e'" "\<not> failed ?e'" "firstNonAnnouncedWindow solo_applied = 1" "\<not> failed solo_applied"
      by (simp_all add: solo_applied_def solo_recorded_def solo_e4_def solo_states newEngineState_def failed_def)
    have "advance_loop (Suc (Suc (Suc 0))) solo_C ?e' = solo_applied"
      by (simp add: advance_loop.simps at_slot_def slot_at_def solo_applied_def newSlotMap_def settled_def solo_slot5_def
        solo_slot1_def newPoolSlot_def)
    then show ?thesis using ops by (simp add: advancePresent_def solo_applied_def newSlotMap_def Let_def)
  qed
  ultimately show ?thesis by (simp add: onNotarCertificate_def enqueue_def solo_sealed_def solo_cert_def)
qed

lemma solo_5c: "drainPending solo_C solo_applied = solo_e5"
proof -
  let ?n = "NVoterNotarization solo_id"
  have 1: "drainPending solo_C solo_applied
    = drainPending solo_C (emit (OHook (HNotarized solo_id (solo_sealed (NotarizeVote solo_id)))) (solo_applied\<lparr>pending := [?n]\<rparr>))"
    by (subst drainPending.simps) (simp add: run_notice_def solo_applied_def)
  also have "\<dots> = drainPending solo_C (voterNotarizationObserved solo_C solo_id
      ((emit (OHook (HNotarized solo_id (solo_sealed (NotarizeVote solo_id)))) (solo_applied\<lparr>pending := [?n]\<rparr>))\<lparr>pending := []\<rparr>))"
    by (subst drainPending.simps) (simp add: run_notice_def emit_def)
  also have "voterNotarizationObserved solo_C solo_id
      ((emit (OHook (HNotarized solo_id (solo_sealed (NotarizeVote solo_id)))) (solo_applied\<lparr>pending := [?n]\<rparr>))\<lparr>pending := []\<rparr>) = solo_e5"
    by (simp add: voterNotarizationObserved_def tryVoteFinal_def castVote_def engine_ops solo_applied_def solo_recorded_def
        solo_e4_def solo_e5_def solo_states newEngineState_def solo_voter5_def wrap64_def solo_params_def)
  also have "drainPending solo_C solo_e5 = solo_e5"
    by (subst drainPending.simps) (simp add: solo_e5_def solo_e4_def solo_states newEngineState_def)
  finally show ?thesis .
qed

lemma solo_5: "turn solo_C (105, ICertSaved (solo_sealed (NotarizeVote solo_id)) None) solo_e4 = solo_e5"
proof -
  let ?e = "solo_e4\<lparr>clock := 105, inflight := [CWindow 1]\<rparr>" and ?c = "solo_cert (NotarizeVote solo_id)"
  have "at_slot solo_C 0 ?e = (Some solo_slot4, ?e)"
    by (simp add: at_slot_def slot_at_def solo_e4_def newSlotMap_def)
  moreover have "extract_votes solo_C ?c (cert_Signatures ?c) solo_slot4 ?e = (solo_slot4, ?e)"
    by (simp add: solo_certs)
  moreover have "storeSavedCertificate solo_C solo_slot4 (solo_sealed (NotarizeVote solo_id)) ?e = solo_applied"
  proof -
    have "set_saving VoteNotarize False (set_cert VoteNotarize (Some ?c) solo_slot4) = solo_slot5" "notarCert solo_slot4 = None"
      by (simp_all add: solo_slot5_def solo_slot4_def solo_slot_def newPoolSlot_def set_saving_def set_cert_def)
    moreover have "\<not> failed solo_applied" "parentWaits solo_applied = []"
      by (simp_all add: solo_applied_def solo_recorded_def solo_e4_def solo_states newEngineState_def failed_def)
    moreover have "v_Kind (cert_Vote ?c) = VoteNotarize" "s_cert (solo_sealed (NotarizeVote solo_id)) = ?c"
      by (simp_all add: solo_cert_def solo_sealed_def)
    ultimately show ?thesis
      by (simp add: storeSavedCertificate_def certByKind_def solo_5a solo_5b apply_certificate_def no_waits)
  qed
  moreover have "\<not> failed ?e" "inflight solo_e4 = [CWindow 1, CCert (solo_sealed (NotarizeVote solo_id))]"
    by (simp_all add: solo_e4_def solo_states newEngineState_def failed_def)
  ultimately show ?thesis
    by (simp add: turn_def take_completion_def handle_def completeAsync_def finishCertificateSave_def
        solo_sealed_def solo_cert_def solo_5c)
qed

text \<open>The finalize vote is durable, then its certificate: the horizon moves to slot 1.\<close>

definition solo_slot6 :: poolSlot where
  "solo_slot6 = solo_slot5\<lparr>votes := [no_votes\<lparr>vv_notarize := Some (solo_proof (NotarizeVote solo_id)),
       vv_finalize := Some (solo_proof (FinalizeVote solo_id))\<rparr>],
     finalizeWeight := [(solo_id, 1)], finalSaving := True\<rparr>"

definition solo_e6 :: engine where
  "solo_e6 = solo_e5\<lparr>clock := 106, inflight := [CWindow 1, CCert (solo_sealed (FinalizeVote solo_id))],
     payloadCache := [(VoteNotarize, (NotarizeVote solo_id, [])), (VoteFinalize, (FinalizeVote solo_id, []))],
     e_slots := newSlotMap\<lparr>slots := [(0, solo_slot6), (1, solo_slot1)]\<rparr>,
     e_stats := (e_stats solo_e5)\<lparr>OwnVotesCast := 2, CertificatesBuilt := 2\<rparr>,
     outs := outs solo_e5 @ [OSign (FinalizeVote solo_id), OJournal (SaveCertificate (solo_cert (FinalizeVote solo_id))),
       OSend (ToAll (solo_wire (FinalizeVote solo_id)))]\<rparr>"

lemma solo_6: "turn solo_C (106, IVoteSaved (FinalizeVote solo_id) None) solo_e5 = solo_e6"
  by (simp add: solo_turn vote_saved_def finishVoteCast_def votePayload_def DataToSign_def
    noteOwnCandidateVote_def pool_ops solo_states solo_e4_def solo_e5_def solo_e6_def solo_voter5_def solo_slot4_def solo_slot5_def
    solo_slot6_def zeroStats_def solo_sealed_def solo_cert_def solo_wire_def)

definition solo_finalized :: engine where
  "solo_finalized = solo_e6\<lparr>clock := 107, inflight := [CWindow 1],
     e_slots := \<lparr>firstNonFinalized = 1, slots = [(1, solo_slot1)]\<rparr>,
     lastFinalized := Parent solo_id, lastFinalCert := Some (solo_cert (FinalizeVote solo_id)),
     e_stats := (e_stats solo_e6)\<lparr>CertificatesStored := 2,
       CertificatesByKind := (\<lambda>_. 0)(VoteNotarize := 1, VoteFinalize := 1),
       SignaturesByKind := (\<lambda>_. 0)(VoteNotarize := 1, VoteFinalize := 1),
       SlotsFinalized := 1, LastFinalizedAt := 107\<rparr>,
     standstillAt := 1107,
     pending := [NFinalized solo_id (solo_sealed (FinalizeVote solo_id)), NVoterFinalization solo_id],
     outs := outs solo_e6 @ [OObtained (solo_cert (FinalizeVote solo_id)),
       OSend (ToRandom 2 (Certificate_Serialize solo_ext (solo_cert (FinalizeVote solo_id))))]\<rparr>"

definition solo_e7 :: engine where
  "solo_e7 = solo_finalized\<lparr>pending := [],
     voter := Some (solo_voter5\<lparr>v_slots := \<lparr>firstNonFinalized = 1, slots = []\<rparr>\<rparr>),
     outs := outs solo_finalized @ [OHook (HFinalized solo_id (solo_sealed (FinalizeVote solo_id)))]\<rparr>"

lemmas solo_final = solo_finalized_def solo_e6_def solo_e5_def solo_e4_def solo_states newEngineState_def

lemma solo_range: "slot_range 0 1 = [0]"
  by (simp add: slot_range_def)

lemma solo_7a: "storeSavedCertificate solo_C solo_slot6 (solo_sealed (FinalizeVote solo_id)) (solo_e6\<lparr>clock := 107, inflight := [CWindow 1]\<rparr>)
   = solo_finalized"
proof -
  let ?c = "solo_cert (FinalizeVote solo_id)" and ?e = "solo_e6\<lparr>clock := 107, inflight := [CWindow 1]\<rparr>"
  let ?s = "solo_slot6\<lparr>finalSaving := False, finalCert := Some ?c\<rparr>"
  let ?r = "record_certificate solo_C ?s ?c ?e"
  have s: "set_saving VoteFinalize False (set_cert VoteFinalize (Some ?c) solo_slot6) = ?s" "finalCert solo_slot6 = None"
    by (simp_all add: solo_slot6_def solo_slot5_def solo_slot4_def solo_slot_def newPoolSlot_def set_saving_def set_cert_def)
  have k: "v_Kind (cert_Vote ?c) = VoteFinalize" "s_cert (solo_sealed (FinalizeVote solo_id)) = ?c" "v_ID (cert_Vote ?c) = solo_id"
    by (simp_all add: solo_cert_def solo_sealed_def)
  have sl: "skipCert ?s = None" "notarCert ?s = Some (solo_cert (NotarizeVote solo_id))" "notarizedBlock ?s = Some solo_id"
    by (simp_all add: solo_slot6_def solo_slot5_def solo_slot4_def solo_slot_def newPoolSlot_def notarizedBlock_def solo_cert_def)
  have r: "?r = solo_finalized\<lparr>e_slots := newSlotMap\<lparr>slots := [(0, ?s), (1, solo_slot1)]\<rparr>, lastFinalized := Genesis,
      lastFinalCert := None, e_stats := (e_stats solo_finalized)\<lparr>SlotsFinalized := 0, LastFinalizedAt := 0\<rparr>,
      standstillAt := 1100, pending := []\<rparr>"
    by (simp add: record_certificate_def sign_slots_def reportOwnCandidateNotarized_def solo_cert_def solo_final
      solo_params_def engine_ops zeroStats_def)
  have final: "now solo_finalized = 1" "skipRuns solo_finalized = []" "seenBroadcasts solo_finalized = []"
    "\<not> suppressCertBroadcast solo_finalized" "drain solo_finalized = None" "clock solo_finalized = 107"
    "StandstillTimeout (e_params solo_finalized) = 1000"
    by (simp_all add: solo_final solo_params_def)
  have m: "move_horizon solo_id (solo_sealed (FinalizeVote solo_id)) ?r = solo_finalized\<lparr>standstillAt := 1100\<rparr>"
    unfolding r by (simp add: move_horizon_def notifyFinalized_def solo_range count_def enqueue_def newSlotMap_def Let_def k)
       (simp add: solo_final solo_params_def zeroStats_def)
  have "finalize_slot solo_C solo_id (solo_sealed (FinalizeVote solo_id)) ?r = solo_finalized"
    unfolding finalize_slot_def m by (simp add: final eraseUpTo_def Let_def) (simp add: solo_final)
  moreover have "\<not> failed solo_finalized" "parentWaits solo_finalized = []" by (simp_all add: solo_final failed_def)
  ultimately show ?thesis
    by (simp add: storeSavedCertificate_def certByKind_def apply_certificate_def onFinalCertificate_def s sl k no_waits)
qed

lemma solo_7: "turn solo_C (107, ICertSaved (solo_sealed (FinalizeVote solo_id)) None) solo_e6 = solo_e7"
proof -
  let ?e = "solo_e6\<lparr>clock := 107, inflight := [CWindow 1]\<rparr>" and ?c = "solo_cert (FinalizeVote solo_id)"
  have "at_slot solo_C 0 ?e = (Some solo_slot6, ?e)"
    by (simp add: at_slot_def slot_at_def solo_e6_def newSlotMap_def)
  moreover have "extract_votes solo_C ?c (cert_Signatures ?c) solo_slot6 ?e = (solo_slot6, ?e)"
    by (simp add: solo_cert_def pool_ops solo_slot6_def solo_slot5_def solo_slot4_def engine_ops solo_final solo_voter5_def)
  moreover have "drainPending solo_C solo_finalized = solo_e7"
    by (simp add: drainPending.simps run_notice_def solo_e7_def solo_finalized_def emit_def voterFinalizationObserved_def modify_voter_def)
      (simp add: solo_final solo_voter5_def notifyFinalized_def solo_range newSlotMap_def)
  moreover have "\<not> failed ?e" "inflight solo_e6 = [CWindow 1, CCert (solo_sealed (FinalizeVote solo_id))]"
    by (simp_all add: solo_final failed_def)
  ultimately show ?thesis
    by (simp add: turn_def take_completion_def handle_def completeAsync_def finishCertificateSave_def
        solo_sealed_def solo_cert_def solo_7a [unfolded solo_sealed_def solo_cert_def])
qed

definition solo_inputs :: "(gotime \<times> input) list" where
  "solo_inputs = [(101, ICandidate solo_cand), (102, IStored solo_id None), (103, IValidated solo_id Accepted),
     (104, IVoteSaved (NotarizeVote solo_id) None), (105, ICertSaved (solo_sealed (NotarizeVote solo_id)) None),
     (106, IVoteSaved (FinalizeVote solo_id) None), (107, ICertSaved (solo_sealed (FinalizeVote solo_id)) None)]"

lemma solo_session: "session solo_C solo_journal solo_inputs solo_e7"
proof -
  have step: "session solo_C solo_journal (evs @ [x]) e'"
    if "session solo_C solo_journal evs e" "enabled (snd x) e" "turn solo_C x e = e'" for evs e x e'
    using session.input [OF that(1,2)] that(3) by simp
  have en: "enabled (snd (101, ICandidate solo_cand)) solo_e0" "enabled (snd (102, IStored solo_id None)) solo_e1"
    "enabled (snd (103, IValidated solo_id Accepted)) solo_e2" "enabled (snd (104, IVoteSaved (NotarizeVote solo_id) None)) solo_e3"
    "enabled (snd (105, ICertSaved (solo_sealed (NotarizeVote solo_id)) None)) solo_e4"
    "enabled (snd (106, IVoteSaved (FinalizeVote solo_id) None)) solo_e5"
    "enabled (snd (107, ICertSaved (solo_sealed (FinalizeVote solo_id)) None)) solo_e6"
    by (simp_all add: enabled_def solo_e1_def solo_e2_def solo_e3_def solo_e4_def solo_e5_def solo_e6_def)
  note s1 = step [OF solo_boot en(1) solo_1]
  note s2 = step [OF s1 en(2) solo_2]
  note s3 = step [OF s2 en(3) solo_3]
  note s4 = step [OF s3 en(4) solo_4]
  note s5 = step [OF s4 en(5) solo_5]
  note s6 = step [OF s5 en(6) solo_6]
  note s7 = step [OF s6 en(7) solo_7]
  then show ?thesis by (simp add: solo_inputs_def)
qed

end
