(* ===== verification/EngineSound.thy ===== *)
theory EngineSound
  imports EngineDemo
begin

text \<open>
  Soundness of every certificate the engine handles: received ones, journaled ones and those
  it assembles and seals itself (\<open>Engine.seal\<close>). The invariant \<open>sound\<close> ties every place where
  votes and certificates are kept to the validity of their signatures; each operation keeps it.
\<close>

section \<open>The invariant\<close>

abbreviation payload_of :: "config \<Rightarrow> vote \<Rightarrow> bytes" where
  "payload_of C v \<equiv> vote_payload (cf_ext C) (sessionID C) v"

abbreviation signed_ok :: "config \<Rightarrow> nat \<Rightarrow> vote \<Rightarrow> bytes \<Rightarrow> bool" where
  "signed_ok C \<equiv> (\<lambda>i v sig. length sig = ed25519_SignatureSize
     \<and> ed25519_Verify (cf_ext C) (PublicKey (validators C ! i)) (payload_of C v) sig)"

definition cert_valid :: "config \<Rightarrow> certificate \<Rightarrow> bool" where
  "cert_valid C c \<longleftrightarrow> vote_wf (cert_Vote c)
     \<and> valid_certificate (cf_ext C) (validators C) (threshold C) (payload_of C (cert_Vote c)) c"

definition sealed_ok :: "config \<Rightarrow> sealed \<Rightarrow> bool" where
  "sealed_ok C vc \<longleftrightarrow> cert_valid C (s_cert vc) \<and> s_binding vc = cv_binding (certs C)"

definition slot_ok :: "config \<Rightarrow> u32 \<Rightarrow> poolSlot \<Rightarrow> bool" where
  "slot_ok C i s \<longleftrightarrow> poolSlot_ok (validators C) (signed_ok C) (cert_valid C) i s"

definition pending_vote_ok :: "config \<Rightarrow> pendingVote \<Rightarrow> bool" where
  "pending_vote_ok C p \<longleftrightarrow> vote_wf (pv_vote p) \<and> pv_payload p = payload_of C (pv_vote p)
     \<and> unat (pv_idx p) < length (validators C)"

fun completion_ok :: "config \<Rightarrow> completion \<Rightarrow> bool" where
  "completion_ok C (CCert vc) = sealed_ok C vc"
| "completion_ok C (CVote v) = vote_wf v"
| "completion_ok C _ = True"

fun notice_ok :: "config \<Rightarrow> notice \<Rightarrow> bool" where
  "notice_ok C (NNotarized i vc) \<longleftrightarrow> sealed_ok C vc \<and> cert_Vote (s_cert vc) = NotarizeVote i"
| "notice_ok C (NFinalized i vc) \<longleftrightarrow> sealed_ok C vc \<and> cert_Vote (s_cert vc) = FinalizeVote i"
| "notice_ok C _ = True"

fun out_ok :: "config \<Rightarrow> out \<Rightarrow> bool" where
  "out_ok C (OHook (HNotarized i vc)) \<longleftrightarrow> sealed_ok C vc \<and> cert_Vote (s_cert vc) = NotarizeVote i"
| "out_ok C (OHook (HFinalized i vc)) \<longleftrightarrow> sealed_ok C vc \<and> cert_Vote (s_cert vc) = FinalizeVote i"
| "out_ok C (OJournal (SaveCertificate c)) \<longleftrightarrow> cert_valid C c"
| "out_ok C (OObtained c) \<longleftrightarrow> cert_valid C c"
| "out_ok C _ \<longleftrightarrow> True"

text \<open>What the session relies on: indices fit the wire format, our own key signs validly.\<close>

definition signer_ok :: "config \<Rightarrow> bool" where
  "signer_ok C \<longleftrightarrow> (localIndex C = ObserverIndex \<or> 0 \<le> localIndex C \<and> localIndex C < int (length (validators C)))
     \<and> length (validators C) \<le> 2 ^ 32
     \<and> (\<forall>v sig. localIndex C \<noteq> ObserverIndex \<longrightarrow> signer_Sign (cf_ext C) (payload_of C v) = Inr sig
          \<longrightarrow> signed_ok C (nat (localIndex C)) v sig)"

definition sound :: "config \<Rightarrow> engine \<Rightarrow> bool" where
  "sound C e \<longleftrightarrow> signer_ok C \<and> (voter e \<noteq> None \<longrightarrow> localIndex C \<noteq> ObserverIndex)
     \<and> slotMap_ok (e_slots e) \<and> (\<forall>i s. view (e_slots e) i = Some s \<longrightarrow> slot_ok C i s)
     \<and> (\<forall>k v b. map_of (payloadCache e) k = Some (v, b) \<longrightarrow> b = payload_of C v)
     \<and> (\<forall>p \<in> set (pendingVerify e). pending_vote_ok C p)
     \<and> (\<forall>c \<in> set (inflight e). completion_ok C c)
     \<and> (\<forall>f \<in> set (pending e). notice_ok C f)
     \<and> (\<forall>x \<in> set (outs e). out_ok C x)"

named_theorems sound_intro \<open>operations that keep the soundness invariant\<close>

section \<open>Primitive operations\<close>

lemma sound_update [simp]:
  "sound C (e\<lparr>now := a\<rparr>) = sound C e" "sound C (e\<lparr>firstNonAnnouncedWindow := b\<rparr>) = sound C e"
  "sound C (e\<lparr>skipRuns := r\<rparr>) = sound C e" "sound C (e\<lparr>parentWaits := w\<rparr>) = sound C e"
  "sound C (e\<lparr>suppressCertBroadcast := d\<rparr>) = sound C e" "sound C (e\<lparr>seenBroadcasts := f\<rparr>) = sound C e"
  "sound C (e\<lparr>bans := g\<rparr>) = sound C e" "sound C (e\<lparr>standstillAt := h\<rparr>) = sound C e"
  "sound C (e\<lparr>drain := i\<rparr>) = sound C e" "sound C (e\<lparr>ownCandidates := j\<rparr>) = sound C e"
  "sound C (e\<lparr>e_stats := k\<rparr>) = sound C e" "sound C (e\<lparr>clock := l\<rparr>) = sound C e"
  "sound C (e\<lparr>e_params := m\<rparr>) = sound C e" "sound C (e\<lparr>started := n\<rparr>) = sound C e"
  "sound C (e\<lparr>stopped := q\<rparr>) = sound C e" "sound C (e\<lparr>fatalErr := u\<rparr>) = sound C e"
  "sound C (e\<lparr>lastFinalized := x\<rparr>) = sound C e" "sound C (e\<lparr>lastFinalCert := y\<rparr>) = sound C e"
  by (simp_all add: sound_def)

lemma sound_emit [sound_intro]: "sound C e \<Longrightarrow> out_ok C x \<Longrightarrow> sound C (emit x e)"
  by (auto simp: sound_def emit_def)

lemma sound_trace [sound_intro]: "sound C e \<Longrightarrow> sound C (trace C ev e)"
  by (simp add: trace_def sound_emit)

lemma sound_enqueue [sound_intro]: "sound C e \<Longrightarrow> notice_ok C f \<Longrightarrow> sound C (enqueue f e)"
  by (auto simp: sound_def enqueue_def)

lemma sound_fatal [sound_intro]: "sound C e \<Longrightarrow> sound C (fatal err e)"
  by (auto simp: sound_def fatal_def enqueue_def)

lemma sound_begin [sound_intro]: "sound C e \<Longrightarrow> completion_ok C c \<Longrightarrow> sound C (begin_async c e)"
  by (auto simp: sound_def begin_async_def)

lemma sound_count [sound_intro]: "sound C e \<Longrightarrow> sound C (count f e)"
  by (simp add: count_def)

lemma sound_report [sound_intro]: "sound C e \<Longrightarrow> sound C (reportMisbehavior idx m e)"
  by (simp add: reportMisbehavior_def sound_intro)

lemma sound_ban [sound_intro]: "sound C e \<Longrightarrow> sound C (ban p e)"
  by (simp add: ban_def Let_def sound_intro)

lemma sound_drop [sound_intro]: "sound C e \<Longrightarrow> sound C (drop_message e)"
  by (simp add: drop_message_def sound_intro)

lemma sound_isBanned: "isBanned p e = (b, e') \<Longrightarrow> sound C e \<Longrightarrow> sound C e'"
  by (auto simp: isBanned_def split: option.splits if_splits)

lemma sound_own [sound_intro]:
  "sound C e \<Longrightarrow> sound C (noteOwnCandidate i e)"
  "sound C e \<Longrightarrow> sound C (noteOwnCandidateVote C idx v e)"
  "sound C e \<Longrightarrow> sound C (reportOwnCandidateNotarized cert e)"
  by (simp_all add: noteOwnCandidate_def noteOwnCandidateVote_def reportOwnCandidateNotarized_def Let_def
      split: option.split)

lemma sound_voter [sound_intro]:
  "sound C e \<Longrightarrow> sound C (modify_voter g e)" "sound C e \<Longrightarrow> sound C (put_voter_slot i s e)"
  by (auto simp: sound_def modify_voter_def put_voter_slot_def)

lemma sound_voter_at: "voter_at i e = (r, e') \<Longrightarrow> sound C e \<Longrightarrow> sound C e'"
  by (auto simp: voter_at_def sound_def split: option.splits prod.splits)

lemma e_slots_prim [simp]:
  "e_slots (emit x e) = e_slots e" "e_slots (trace C ev e) = e_slots e" "e_slots (enqueue f e) = e_slots e"
  "e_slots (begin_async c e) = e_slots e" "e_slots (count g e) = e_slots e" "e_slots (fatal err e) = e_slots e"
  "e_slots (reportMisbehavior idx m e) = e_slots e"
  "e_slots (noteOwnCandidateVote C idx v e) = e_slots e"
  "e_slots (reportOwnCandidateNotarized cert e) = e_slots e"
  by (simp_all add: emit_def trace_def enqueue_def begin_async_def count_def fatal_def reportMisbehavior_def
      noteOwnCandidateVote_def reportOwnCandidateNotarized_def split: option.split)

lemma horizon_put_pool [simp]:
  "firstNonFinalized (e_slots (put_pool_slot i s e)) = firstNonFinalized (e_slots e)"
  by (simp add: put_pool_slot_def)

lemma slot_ok_new: "slot_ok C i (newPoolSlot (length (validators C)))"
  by (simp add: slot_ok_def poolSlot_ok_new)

lemma at_slot_horizon:
  assumes "at_slot C i e = (r, e')"
  shows "firstNonFinalized (e_slots e') = firstNonFinalized (e_slots e)"
    and "r = Some s \<Longrightarrow> firstNonFinalized (e_slots e') \<le> i"
proof -
  have r: "r = fst (slot_at (newPoolSlot (length (validators C))) i (e_slots e))"
    and m: "e_slots e' = snd (slot_at (newPoolSlot (length (validators C))) i (e_slots e))"
    using assms by (auto simp: at_slot_def Let_def split: prod.splits)
  show "firstNonFinalized (e_slots e') = firstNonFinalized (e_slots e)" by (simp add: m)
  show "r = Some s \<Longrightarrow> firstNonFinalized (e_slots e') \<le> i"
    by (auto simp: m r fst_slot_at split: if_splits)
qed

lemma sound_at:
  assumes "at_slot C i e = (r, e')" and "sound C e"
  shows "sound C e'" and "r = Some s \<Longrightarrow> slot_ok C i s"
proof -
  let ?n = "newPoolSlot (length (validators C))"
  have r: "r = fst (slot_at ?n i (e_slots e))" and m: "e' = e\<lparr>e_slots := snd (slot_at ?n i (e_slots e))\<rparr>"
    using assms(1) by (auto simp: at_slot_def Let_def split: prod.splits)
  have old: "slotMap_ok (e_slots e)" "\<And>k s. view (e_slots e) k = Some s \<Longrightarrow> slot_ok C k s"
    using assms(2) by (auto simp: sound_def)
  have "slot_ok C k s" if "view (snd (slot_at ?n i (e_slots e))) k = Some s" for k s
    using store.at_all [where P = "slot_ok C", OF old(2) slot_ok_new that] .
  then show "sound C e'" using assms(2) old(1) by (simp add: sound_def m)
  show "r = Some s \<Longrightarrow> slot_ok C i s"
    using old(2) slot_ok_new [of C i] by (auto simp: r fst_slot_at split: if_splits option.splits)
qed

lemma at_slot_cases:
  obtains (gone) e1 where "at_slot C i e = (None, e1)" | (slot) s e1 where "at_slot C i e = (Some s, e1)"
  by (cases "at_slot C i e"; cases "fst (at_slot C i e)") auto

lemma sound_put:
  "sound C e \<Longrightarrow> slot_ok C i s \<Longrightarrow> firstNonFinalized (e_slots e) \<le> i \<Longrightarrow> sound C (put_pool_slot i s e)"
  by (auto simp: sound_def put_pool_slot_def)

lemma votePayload_payload:
  assumes "votePayload C v e = (b, e')" and "sound C e"
  shows "b = payload_of C v" and "sound C e'" and "e_slots e' = e_slots e" and "voter e' = voter e"
proof -
  have new: "DataToSign (cf_ext C) (sessionID C) (VoteBytes (cf_ext C) v) = payload_of C v"
    by (simp add: vote_payload_def)
  have cache: "\<And>k w b. map_of (payloadCache e) k = Some (w, b) \<Longrightarrow> b = payload_of C w"
    using assms(2) by (auto simp: sound_def)
  show "b = payload_of C v"
    using assms(1) new cache [of "v_Kind v" v]
    by (auto simp: votePayload_def Let_def split: option.splits if_splits prod.splits)
  show "e_slots e' = e_slots e" "voter e' = voter e"
    using assms(1) by (auto simp: votePayload_def Let_def split: option.splits if_splits prod.splits)
  have "sound C (e\<lparr>payloadCache := map_put (v_Kind v) (v, payload_of C v) (payloadCache e)\<rparr>)"
    using assms(2) by (auto simp: sound_def split: if_splits)
  then show "sound C e'"
    using assms new by (auto simp: votePayload_def Let_def split: option.splits if_splits prod.splits)
qed

section \<open>Votes and certificates\<close>

lemma slot_ok_saving: "slot_ok C i s \<Longrightarrow> slot_ok C i (set_saving k b s)"
  unfolding slot_ok_def by (rule poolSlot_ok_cong) (auto split: if_splits)

lemma slot_ok_base: "slot_ok C i s \<Longrightarrow> slot_ok C i (addAvailableBase p s)"
  unfolding slot_ok_def by (rule poolSlot_ok_cong) auto

lemma slot_ok_cert:
  assumes "slot_ok C i s" and "sealed_ok C vc" and "vote_Slot (cert_Vote (s_cert vc)) = i"
  shows "slot_ok C i (set_cert (v_Kind (cert_Vote (s_cert vc))) (Some (s_cert vc)) s)"
  using assms(1) unfolding slot_ok_def
  by (rule poolSlot_ok_cong)
    (use assms(2,3) in \<open>auto simp: cert_for_def sealed_ok_def cert_valid_def split: if_splits\<close>)

lemma sound_handleCertificate [sound_intro]:
  assumes "sound C e" and "sealed_ok C vc"
  shows "sound C (handleCertificate C vc e)"
proof (cases "at_slot C (vote_Slot (cert_Vote (s_cert vc))) e")
  case (Pair r e1)
  have e1: "sound C e1" using sound_at(1) [OF Pair assms(1)] .
  show ?thesis
  proof (cases r)
    case (Some s)
    have "slot_ok C (vote_Slot (cert_Vote (s_cert vc))) s"
      using sound_at(2) [OF Pair assms(1)] Some by simp
    then show ?thesis
      using e1 assms(2) at_slot_horizon(2) [OF Pair Some]
      by (auto simp: handleCertificate_def Let_def Pair Some sealed_ok_def
          intro!: sound_intro sound_put slot_ok_saving)
  qed (use e1 in \<open>simp add: handleCertificate_def Pair\<close>)
qed

lemma put_put: "put_pool_slot i a (put_pool_slot i b e) = put_pool_slot i a e"
proof -
  have "map_put i a (map_put i b m) = map_put i a m" for m by (induction m) auto
  then show ?thesis by (simp add: put_pool_slot_def put_slot_def)
qed

lemma noteOwnCandidateVote_put:
  "noteOwnCandidateVote C idx v (put_pool_slot i s e) = put_pool_slot i s (noteOwnCandidateVote C idx v e)"
  by (simp add: noteOwnCandidateVote_def put_pool_slot_def split: option.split)

lemma sound_onVoteApplied:
  assumes "sound C e" and "slot_ok C (vote_Slot v) s" and "firstNonFinalized (e_slots e) \<le> vote_Slot v"
    and "unat idx < length (validators C)" and "vote_wf v" and "signed_ok C (unat idx) v sig"
    and add: "vv_add \<lparr>p_fromCert = False, p_vote = v, p_sig = sig, p_cert = None\<rparr> (votes s ! unat idx) = (True, ev, vv)"
  shows "sound C (onVoteApplied C idx v (s\<lparr>votes := (votes s)[unat idx := vv]\<rparr>)
    (put_pool_slot (vote_Slot v) (s\<lparr>votes := (votes s)[unat idx := vv]\<rparr>) e))"
proof -
  let ?p = "\<lparr>p_fromCert = False, p_vote = v, p_sig = sig, p_cert = None\<rparr>"
  let ?t = "s\<lparr>votes := (votes s)[unat idx := vv]\<rparr>"
  obtain w s' where w: "add_weight (Weight (validators C ! unat idx)) v ?t = (w, s')" by fastforce
  note appl = poolSlot_ok_apply [of "validators C" "signed_ok C" "cert_valid C" "vote_Slot v" s "unat idx" ?p ev vv]
  have ok: "slot_ok C (vote_Slot v) s'"
    using appl(1) assms(2,4-6) add w by (simp add: slot_ok_def)
  have weight: "w = direct_weight (validators C) (votes s') v"
    using appl(2) assms(2,4-6) add w add_weight_fields(1) [of "Weight (validators C ! unat idx)" v ?t]
    by (simp add: slot_ok_def)
  have put: "sound C (put_pool_slot (vote_Slot v) s' e)" using assms(1,3) ok by (intro sound_put)
  have "cert_valid C (buildCertificate s' v)" if "threshold C \<le> w"
    using buildCertificate_valid [of "validators C" "cf_ext C" "sessionID C" "cert_valid C" "vote_Slot v" s' "threshold C" v]
      ok that assms(1,5) by (auto simp: slot_ok_def weight cert_valid_def sound_def signer_ok_def)
  then show ?thesis
    using put by (auto simp: onVoteApplied_def w Let_def put_put sealCertificate_def sealed_ok_def intro!: sound_intro)
qed

lemma sound_applyVote:
  assumes "sound C e" and "unat idx < length (validators C)" and "vote_wf v" and "signed_ok C (unat idx) v sig"
    and "applyVote C idx v sig tol e = (b, e')"
  shows "sound C e'"
proof (cases "at_slot C (vote_Slot v) e")
  case (Pair r e1)
  have e1: "sound C e1" using sound_at(1) [OF Pair assms(1)] .
  show ?thesis
  proof (cases r)
    case None
    then show ?thesis using assms(5) e1 by (simp add: applyVote_def Pair)
  next
    case (Some s)
    let ?p = "\<lparr>p_fromCert = False, p_vote = v, p_sig = sig, p_cert = None\<rparr>"
    have s: "slot_ok C (vote_Slot v) s" using sound_at(2) [OF Pair assms(1)] Some by simp
    have h: "firstNonFinalized (e_slots e1) \<le> vote_Slot v" using at_slot_horizon(2) [OF Pair Some] .
    have put: "sound C (put_pool_slot (vote_Slot v) s e1)" using e1 s h by (rule sound_put)
    have n: "sound C (noteOwnCandidateVote C idx v e1)" using e1 by (intro sound_intro)
    show ?thesis
    proof (cases rule: vv_add_cases [of ?p "votes s ! unat idx"])
      case (conflict c)
      then show ?thesis
        using assms(5) put by (auto simp: applyVote_def Pair Some Let_def intro: sound_intro split: if_splits)
    next
      case duplicate
      then show ?thesis using assms(5) put by (simp add: applyVote_def Pair Some Let_def)
    next
      case applied
      then show ?thesis
        using assms(5) sound_onVoteApplied [OF n s _ assms(2-4) applied(1)] h
        by (auto simp: applyVote_def Pair Some Let_def noteOwnCandidateVote_put)
    qed
  qed
qed

lemma local_index:
  assumes "sound C e" and "voter e \<noteq> None"
  shows "unat (of_int (localIndex C) :: u32) = nat (localIndex C)" and "nat (localIndex C) < length (validators C)"
proof -
  obtain n where n: "localIndex C = int n" "n < length (validators C)" "length (validators C) \<le> 2 ^ 32"
    using assms by (auto simp: sound_def signer_ok_def elim!: nonneg_int_cases)
  then have "unat (of_nat n :: u32) = n" by (simp add: unat_of_nat take_bit_nat_eq_self)
  with n show "unat (of_int (localIndex C) :: u32) = nat (localIndex C)"
    and "nat (localIndex C) < length (validators C)" by simp_all
qed

lemma sound_finishVoteCast [sound_intro]:
  assumes "sound C e" and "vote_wf v"
  shows "sound C (finishVoteCast C v replay e)"
proof (cases "voter e = None")
  case False
  obtain b e1 where p: "votePayload C v e = (b, e1)" by fastforce
  note p' = votePayload_payload [OF p assms(1)]
  have idx: "unat (of_int (localIndex C) :: u32) = nat (localIndex C)" "nat (localIndex C) < length (validators C)"
    using local_index [OF assms(1) False] by blast+
  show ?thesis
  proof (cases "signer_Sign (cf_ext C) b")
    case (Inl err)
    then show ?thesis using False p'(2) by (auto simp: finishVoteCast_def p Let_def intro!: sound_intro)
  next
    case (Inr sig)
    have "signed_ok C (nat (localIndex C)) v sig"
      using assms(1) False Inr p'(1) by (auto simp: sound_def signer_ok_def)
    then have "sound C e4" if "applyVote C (of_int (localIndex C)) v sig replay
        (count (\<lambda>s. s\<lparr>OwnVotesCast := OwnVotesCast s + 1\<rparr>) (emit (OSign v) e1)) = (a, e4)" for a e4
      using that p'(2) idx assms(2) by (intro sound_applyVote [OF _ _ _ _ that]) (auto intro!: sound_intro)
    then show ?thesis
      using False Inr by (auto simp: finishVoteCast_def p Let_def intro!: sound_intro split: prod.split)
  qed
qed (use assms(1) in \<open>simp add: finishVoteCast_def\<close>)

lemma sound_castVote [sound_intro]: "sound C e \<Longrightarrow> vote_wf v \<Longrightarrow> sound C (castVote C v replay e)"
  by (auto simp: castVote_def Let_def intro!: sound_intro)

section \<open>Parent waits and the present slot\<close>

lemma sound_wait_for_skips: "wait_for_skips C cand e = (d, out, e') \<Longrightarrow> sound C e \<Longrightarrow> sound C e'"
  by (auto simp: wait_for_skips_def Let_def intro: sound_intro dest: sound_at(1)
      split: if_splits option.splits prod.splits)

lemma sound_evaluateParentWait: "evaluateParentWait C cand e = (d, out, e') \<Longrightarrow> sound C e \<Longrightarrow> sound C e'"
  by (auto simp: evaluateParentWait_def Let_def intro: sound_intro dest: sound_at(1) sound_wait_for_skips
      split: if_splits option.splits prod.splits)

lemma sound_registerParentWait [sound_intro]: "sound C e \<Longrightarrow> sound C (registerParentWait C c e)"
  by (auto simp: registerParentWait_def intro!: sound_intro dest: sound_evaluateParentWait split: prod.split)

lemma sound_resolve_waits: "resolve_waits C i ws e = (ws', e') \<Longrightarrow> sound C e \<Longrightarrow> sound C e'"
proof (induction C i ws e rule: resolve_waits.induct)
  case (1 C i ws e)
  obtain d out e1 where ev: "evaluateParentWait C (ws ! i) e = (d, out, e1)" by (metis prod_cases3)
  have e1: "sound C e1" using sound_evaluateParentWait [OF ev "1.prems"(2)] .
  show ?case
  proof (cases "i < length ws")
    case True
    note step = resolve_waits.simps [of C i ws e] ev True
    show ?thesis
    proof (cases d)
      case False
      then show ?thesis using "1.IH"(1) [OF True ev [symmetric] refl] "1.prems"(1) e1 by (simp add: step)
    next
      case d: True
      then show ?thesis
        using "1.IH"(2) [OF True ev [symmetric] refl] "1.prems"(1) e1 by (simp add: step sound_enqueue)
    qed
  qed (use "1.prems" resolve_waits.simps [of C i ws e] in simp)
qed

lemma sound_resolveParentWaits [sound_intro]: "sound C e \<Longrightarrow> sound C (resolveParentWaits C e)"
  by (auto simp: resolveParentWaits_def Let_def dest: sound_resolve_waits split: prod.split)

lemma sound_nextNonSkipped: "nextNonSkippedSlotAfter C i e = (r, e') \<Longrightarrow> sound C e \<Longrightarrow> sound C e'"
  by (auto simp: nextNonSkippedSlotAfter_def Let_def dest: sound_at(1)
      split: if_splits option.splits prod.splits)

lemma sound_add_base [sound_intro]:
  assumes "sound C e"
  shows "sound C (add_base C i p e)"
proof (cases rule: at_slot_cases [of C i e])
  case (gone e1)
  then show ?thesis using sound_at(1) [OF gone assms] by (simp add: add_base_def sound_fatal)
next
  case (slot s e1)
  then show ?thesis
    using sound_at [OF slot assms] at_slot_horizon(2) [OF slot] by (simp add: add_base_def sound_put slot_ok_base)
qed

lemma sound_windowObserved [sound_intro]: "sound C e \<Longrightarrow> sound C (windowObserved C i b e)"
proof -
  assume "sound C e"
  then have "sound C (e\<lparr>voter := map_option f (voter e)\<rparr>)" for f by (auto simp: sound_def)
  then show ?thesis by (auto simp: windowObserved_def Let_def intro!: sound_intro)
qed

lemma sound_advance_loop: "sound C e \<Longrightarrow> sound C (advance_loop n C e)"
proof (induction n arbitrary: e)
  case (Suc n)
  show ?case
  proof (cases rule: at_slot_cases [of C "now e" e])
    case (gone e1)
    then show ?thesis using sound_at(1) [OF gone Suc.prems] by (simp add: advance_loop.simps sound_fatal)
  next
    case (slot s e1)
    then show ?thesis using sound_at(1) [OF slot Suc.prems] Suc.IH by (simp add: advance_loop.simps)
  qed
qed (simp add: advance_loop.simps)

lemma sound_announce [sound_intro]: "sound C e \<Longrightarrow> sound C (announce C b e)"
  by (simp add: announce_def Let_def sound_intro)

lemma sound_announce_at:
  assumes "sound C e"
  shows "sound C (announce_at C e)"
proof (cases rule: at_slot_cases [of C "now e" e])
  case (gone e1)
  then show ?thesis
    using assms sound_at(1) [OF gone assms] by (simp add: announce_at_def sound_intro)
next
  case (slot s e1)
  then show ?thesis
    using assms sound_at(1) [OF slot assms] by (simp add: announce_at_def sound_intro split: option.split)
qed

lemma sound_advancePresent [sound_intro]: "sound C e \<Longrightarrow> sound C (advancePresent C e)"
  by (simp add: advancePresent_def Let_def sound_advance_loop sound_announce_at)

section \<open>Certificate transitions\<close>

lemma sound_onNotar:
  assumes "sound C e" and "sealed_ok C vc" and "v_Kind (cert_Vote (s_cert vc)) = VoteNotarize"
  shows "sound C (onNotarCertificate C vc e)"
proof -
  have "cert_Vote (s_cert vc) = NotarizeVote (v_ID (cert_Vote (s_cert vc)))"
    using assms(3) by (cases "cert_Vote (s_cert vc)") (simp add: NotarizeVote_def)
  then have "sound C (enqueue (NNotarized (v_ID (cert_Vote (s_cert vc))) vc) e)"
    using assms(1,2) by (intro sound_intro) simp_all
  then show ?thesis
    by (auto simp: onNotarCertificate_def Let_def intro!: sound_intro dest: sound_nextNonSkipped
        split: sum.split prod.split)
qed

lemma sound_onSkip: "sound C e \<Longrightarrow> sound C (onSkipCertificate C s cert e)"
  by (auto simp: onSkipCertificate_def Let_def intro!: sound_intro dest: sound_nextNonSkipped
      split: sum.split prod.split option.split)

lemma sound_prune: "sound C e \<Longrightarrow> sound C (e\<lparr>e_slots := notifyFinalized i (e_slots e)\<rparr>)"
  using store.prune_all [of "e_slots e" "slot_ok C" i] by (auto simp: sound_def notifyFinalized_spec(1))

lemma sound_move_horizon:
  assumes "sound C e" and "sealed_ok C vc" and "cert_Vote (s_cert vc) = FinalizeVote i"
  shows "sound C (move_horizon i vc e)"
proof -
  have "sound C (e\<lparr>lastFinalized := Parent i, lastFinalCert := Some (s_cert vc),
      e_slots := notifyFinalized (cid_Slot i) (e_slots e)\<rparr>)"
    using sound_prune [OF assms(1), of "cid_Slot i"] by (auto simp: sound_def)
  then show ?thesis using assms(2,3) by (simp add: move_horizon_def Let_def sound_intro)
qed

lemma sound_onFinal:
  assumes "sound C e" and "sealed_ok C vc" and "v_Kind (cert_Vote (s_cert vc)) = VoteFinalize"
  shows "sound C (onFinalCertificate C s vc e)"
proof -
  define i where "i = v_ID (cert_Vote (s_cert vc))"
  have vote: "cert_Vote (s_cert vc) = FinalizeVote i"
    using assms(3) by (cases "cert_Vote (s_cert vc)") (simp add: FinalizeVote_def i_def)
  have fin: "sound C (finalize_slot C i vc e)" if "sound C e" for e
    using sound_move_horizon [OF that assms(2) vote] by (simp add: finalize_slot_def Let_def sound_advancePresent)
  show ?thesis
    using assms(1) fin unfolding onFinalCertificate_def Let_def i_def [symmetric]
    by (auto intro!: sound_fatal sound_add_base dest: sound_nextNonSkipped split: sum.split prod.split)
qed

lemma sound_record_certificate:
  assumes "sound C e" and "cert_valid C cert" and "slot_ok C (vote_Slot (cert_Vote cert)) s1"
    and "firstNonFinalized (e_slots e) \<le> vote_Slot (cert_Vote cert)"
  shows "sound C (record_certificate C s1 cert e)"
  using assms by (auto simp: record_certificate_def Let_def intro!: sound_intro sound_put)

lemma sound_apply_certificate: "sound C e \<Longrightarrow> sealed_ok C vc \<Longrightarrow> sound C (apply_certificate C s1 vc e)"
  by (auto simp: apply_certificate_def intro: sound_onNotar sound_onSkip sound_onFinal split: voteKind.split)

lemma sound_storeSavedCertificate:
  assumes "sound C e" and "sealed_ok C vc" and "slot_ok C (vote_Slot (cert_Vote (s_cert vc))) s"
    and "firstNonFinalized (e_slots e) \<le> vote_Slot (cert_Vote (s_cert vc))"
  shows "sound C (storeSavedCertificate C s vc e)"
  using assms unfolding storeSavedCertificate_def Let_def
  by (auto intro!: sound_fatal sound_resolveParentWaits sound_apply_certificate sound_record_certificate
      slot_ok_saving slot_ok_cert simp: sealed_ok_def)

lemma valid_signature:
  assumes "cert_valid C c" and "x \<in> set (cert_Signatures c)"
  shows "unat (vs_ValidatorIndex x) < length (validators C)"
    and "signed_ok C (unat (vs_ValidatorIndex x)) (cert_Vote c) (vs_Signature x)"
  using assms by (auto simp: cert_valid_def valid_certificate_def signers_def verify_signature_def)

lemma sound_extract_votes:
  assumes "sound C e" and "cert_valid C cert" and "set xs \<subseteq> set (cert_Signatures cert)"
    and "slot_ok C (vote_Slot (cert_Vote cert)) s"
    and "firstNonFinalized (e_slots e) \<le> vote_Slot (cert_Vote cert)"
    and "extract_votes C cert xs s e = (s', e')"
  shows "sound C e' \<and> slot_ok C (vote_Slot (cert_Vote cert)) s'
    \<and> firstNonFinalized (e_slots e') \<le> vote_Slot (cert_Vote cert)"
  using assms
proof (induction xs arbitrary: s e)
  case (Cons x xs)
  let ?j = "unat (vs_ValidatorIndex x)" and ?i = "vote_Slot (cert_Vote cert)"
  let ?p = "\<lparr>p_fromCert = True, p_vote = cert_Vote cert, p_sig = vs_Signature x, p_cert = Some cert\<rparr>"
  obtain ap ev vv where add: "vv_add ?p (votes s ! ?j) = (ap, ev, vv)" by (metis prod_cases3)
  let ?s = "s\<lparr>votes := (votes s)[?j := vv]\<rparr>"
  have x: "x \<in> set (cert_Signatures cert)" using Cons.prems(3) by simp
  have ok: "slot_ok C ?i ?s"
    using poolSlot_ok_extract [of "validators C" "signed_ok C" "cert_valid C" ?i s ?j ?p]
      Cons.prems(2,4) valid_signature [OF Cons.prems(2) x] add
    by (auto simp: slot_ok_def cert_valid_def)
  then have put: "sound C (put_pool_slot ?i ?s e)" using Cons.prems(1,5) by (intro sound_put)
  define e2 where "e2 = (case ev of
      Some c \<Rightarrow> reportMisbehavior (vs_ValidatorIndex x) (conflict_misbehavior (cf_ext C) (vs_ValidatorIndex x) c)
        (put_pool_slot ?i ?s e)
    | None \<Rightarrow> put_pool_slot ?i ?s e)"
  have "sound C e2" "firstNonFinalized (e_slots e2) \<le> ?i"
    using put Cons.prems(5) by (auto simp: e2_def sound_intro split: option.split)
  moreover have "extract_votes C cert xs ?s e2 = (s', e')"
    using Cons.prems(6) by (simp add: add e2_def Let_def)
  ultimately show ?case
    using Cons.IH [of e2 ?s] Cons.prems(2,3) ok by simp
qed simp

lemma sound_finishCertificateSave [sound_intro]:
  assumes "sound C e" and "sealed_ok C vc"
  shows "sound C (finishCertificateSave C vc err e)"
proof (cases "at_slot C (vote_Slot (cert_Vote (s_cert vc))) e")
  case (Pair r e1)
  have e1: "sound C e1" using sound_at(1) [OF Pair assms(1)] .
  show ?thesis
  proof (cases r)
    case (Some s)
    have s: "slot_ok C (vote_Slot (cert_Vote (s_cert vc))) s" using sound_at(2) [OF Pair assms(1)] Some by simp
    obtain s1 e2 where x: "extract_votes C (s_cert vc) (cert_Signatures (s_cert vc)) s e1 = (s1, e2)" by fastforce
    have "sound C (storeSavedCertificate C s1 vc e2)"
      using sound_extract_votes [OF e1 _ _ s at_slot_horizon(2) [OF Pair Some] x] assms(2)
      by (auto simp: sealed_ok_def intro!: sound_storeSavedCertificate)
    then show ?thesis
      using assms(1) by (auto simp: finishCertificateSave_def Pair Some x intro: sound_intro)
  qed (use assms(1) e1 in \<open>auto simp: finishCertificateSave_def Pair intro: sound_intro\<close>)
qed

section \<open>The voter\<close>

lemma voter_at_cases:
  obtains (gone) e1 where "voter_at i e = (None, e1)" | (slot) s e1 where "voter_at i e = (Some s, e1)"
  by (cases "voter_at i e"; cases "fst (voter_at i e)") auto

lemma sound_tryVoteFinal [sound_intro]: "sound C e \<Longrightarrow> sound C (tryVoteFinal C i s e)"
  by (simp add: tryVoteFinal_def vote_wf_ctor sound_intro split: option.split)

lemma sound_maybeVoteNotar [sound_intro]: "sound C e \<Longrightarrow> sound C (maybeVoteNotar C i s e)"
  by (simp add: maybeVoteNotar_def Let_def vote_wf_ctor sound_intro)

lemma sound_notarizationObserved [sound_intro]:
  assumes "sound C e"
  shows "sound C (voterNotarizationObserved C i e)"
  using assms by (cases rule: voter_at_cases [of "cid_Slot i" e])
    (auto simp: voterNotarizationObserved_def Let_def dest: sound_voter_at intro!: sound_intro)

lemma sound_finalizationObserved [sound_intro]: "sound C e \<Longrightarrow> sound C (voterFinalizationObserved i e)"
  by (simp add: voterFinalizationObserved_def sound_intro)

lemma sound_slot_ops:
  assumes "sound C e"
  shows "sound C (skip_slot C i e)" and "sound C (restore_vote v e)" and "sound C (reserve_skip i e)"
    and "sound C (startup_skip C i e)"
proof -
  show "sound C (skip_slot C i e)" "sound C (reserve_skip i e)" "sound C (startup_skip C i e)"
    using assms by (cases rule: voter_at_cases [of i e];
        auto simp: skip_slot_def reserve_skip_def startup_skip_def vote_wf_ctor dest: sound_voter_at intro!: sound_intro)+
  show "sound C (restore_vote v e)"
    using assms by (cases rule: voter_at_cases [of "vote_Slot v" e])
      (auto simp: restore_vote_def dest: sound_voter_at intro!: sound_intro split: voteKind.split)
qed

lemma sound_foldl: "(\<And>e x. sound C e \<Longrightarrow> sound C (f e x)) \<Longrightarrow> sound C e \<Longrightarrow> sound C (foldl f e xs)"
  by (induction xs arbitrary: e) auto

lemma sound_alarm [sound_intro]: "sound C e \<Longrightarrow> sound C (fireVoterAlarm C e)"
  by (simp add: fireVoterAlarm_def Let_def sound_intro sound_foldl sound_slot_ops split: option.split)

lemma sound_bootstrapVoter [sound_intro]: "sound C e \<Longrightarrow> sound C (bootstrapVoter C vs e)"
  by (simp add: bootstrapVoter_def Let_def sound_foldl sound_slot_ops)

lemma sound_startup [sound_intro]: "sound C e \<Longrightarrow> sound C (castStartupWindowSkips C e)"
  by (simp add: castStartupWindowSkips_def Let_def sound_foldl sound_slot_ops)

lemma sound_acceptCandidate [sound_intro]:
  assumes "sound C e"
  shows "sound C (acceptCandidate C c e)"
  using assms by (cases rule: voter_at_cases [of "cid_Slot (c_ID c)" e])
    (auto simp: acceptCandidate_def Let_def dest: sound_voter_at intro!: sound_intro split: option.split)

lemma sound_onParentWaitDone [sound_intro]:
  assumes "sound C e"
  shows "sound C (onParentWaitDone C c out e)"
  using assms by (cases rule: voter_at_cases [of "cid_Slot (c_ID c)" e])
    (auto simp: onParentWaitDone_def dest: sound_voter_at intro!: sound_intro split: waitOutcome.split)

lemma sound_complete [sound_intro]:
  assumes "sound C e"
  shows "sound C (completeValidation C i vd e)" and "sound C (completeStore C i err e)"
  using assms by (cases rule: voter_at_cases [of "cid_Slot i" e];
      auto simp: completeValidation_def completeStore_def Let_def dest: sound_voter_at intro!: sound_intro
        split: verdict.split option.split)+

section \<open>Inputs\<close>

lemma sound_run_notice: "sound C e \<Longrightarrow> notice_ok C f \<Longrightarrow> sound C (run_notice C f e)"
  by (cases f) (auto simp: run_notice_def intro!: sound_intro)

lemma sound_drainPending [sound_intro]: "sound C e \<Longrightarrow> sound C (drainPending C e)"
proof (rule drainPending_induct [where P = "sound C"])
  fix e f fs assume e: "sound C e" "pending e = f # fs"
  then have "sound C (e\<lparr>pending := fs\<rparr>)" "notice_ok C f" by (auto simp: sound_def)
  then show "sound C (run_notice C f (e\<lparr>pending := fs\<rparr>))" by (rule sound_run_notice)
qed

lemma sound_async:
  "(\<And>e. sound C e \<Longrightarrow> sound C (action e)) \<Longrightarrow> sound C e \<Longrightarrow> sound C (completeAsync C action e)"
  "(\<And>e. sound C e \<Longrightarrow> sound C (action e)) \<Longrightarrow> sound C e \<Longrightarrow> sound C (run C action e)"
  by (simp_all add: completeAsync_def run_def sound_drainPending)

lemma sound_saved [sound_intro]:
  "sound C e \<Longrightarrow> vote_wf v \<Longrightarrow> sound C (vote_saved C v err e)" "sound C e \<Longrightarrow> sound C (window_saved err e)"
  by (simp_all add: vote_saved_def window_saved_def sound_intro split: option.split)

lemma parse_vote_wf: "parseSignedVote X data = Inr (v, sig) \<Longrightarrow> vote_wf v"
  by (auto simp: parseSignedVote_def parseUnsignedVote_def Let_def vote_wf_def SkipVote_def
      split: if_splits sum.splits prod.splits)

lemma unat_index:
  assumes "0 \<le> i" and "i < int n" and "n \<le> 2 ^ 32"
  shows "unat (of_int i :: u32) < n"
proof -
  obtain k where k: "i = int k" using assms(1) by (rule nonneg_int_cases)
  with assms(2,3) have "unat (of_nat k :: u32) = k" by (simp add: unat_of_nat take_bit_nat_eq_self)
  with k assms(2) show ?thesis by simp
qed

lemma sound_pendingVerify:
  "sound C e \<Longrightarrow> \<forall>p \<in> set ps. pending_vote_ok C p \<Longrightarrow> sound C (e\<lparr>pendingVerify := ps\<rparr>)"
  by (auto simp: sound_def)

lemma sound_vote_message [sound_intro]:
  assumes "sound C e"
  shows "sound C (handle_vote_message C src srcV data e)"
proof -
  consider "srcV < 0 \<or> srcV \<ge> int (length (validators C))"
    | err where "parseSignedVote (cf_ext C) data = Inl err"
    | v sig where "0 \<le> srcV" "srcV < int (length (validators C))" "parseSignedVote (cf_ext C) data = Inr (v, sig)"
    by (metis linorder_not_less prod.exhaust sum.exhaust)
  then show ?thesis
  proof cases
    case (3 v sig)
    show ?thesis
    proof (cases rule: at_slot_cases [of C "vote_Slot v" e])
      case (gone e1)
      then show ?thesis
        using assms sound_at(1) [OF gone assms] 3 by (auto simp: handle_vote_message_def intro: sound_intro)
    next
      case (slot s e1)
      obtain b e2 where p: "votePayload C v e1 = (b, e2)" by fastforce
      have e1: "sound C e1" using sound_at(1) [OF slot assms] .
      note p' = votePayload_payload [OF p e1]
      have "unat (of_int srcV :: u32) < length (validators C)"
        using unat_index [of srcV "length (validators C)"] 3 assms by (simp add: sound_def signer_ok_def)
      then have "sound C (e2\<lparr>pendingVerify := pendingVerify e2 @ [\<lparr>pv_src = src, pv_idx = of_int srcV,
          pv_vote = v, pv_sig = sig, pv_payload = b, pv_ok = False\<rparr>]\<rparr>)"
        using p'(1,2) parse_vote_wf [OF 3(3)] by (auto simp: sound_def pending_vote_ok_def)
      then show ?thesis
        using assms e1 3 by (auto simp: handle_vote_message_def slot p intro: sound_intro)
    qed
  qed (use assms in \<open>auto simp: handle_vote_message_def intro: sound_intro\<close>)
qed

lemma verifyCertificate_sealed:
  assumes "verifyCertificate C cert e = (r, e')" and "sound C e"
  shows "sound C e'" and "r = Inr vc \<Longrightarrow> sealed_ok C vc \<and> s_cert vc = cert"
proof -
  obtain b e1 where p: "votePayload C (cert_Vote cert) e = (b, e1)" by fastforce
  note p' = votePayload_payload [OF p assms(2)]
  show "sound C e'"
    using assms p'(2) by (auto simp: verifyCertificate_def p split: sum.splits)
  show "r = Inr vc \<Longrightarrow> sealed_ok C vc \<and> s_cert vc = cert"
    using assms(1) p'(1)
    by (auto simp: verifyCertificate_def p sealCertificate_def sealed_ok_def cert_valid_def
        verifyCertificatePayload_iff validateCertificateVote_def vote_wf_def
        split: sum.splits voteKind.splits if_splits)
qed

lemma sound_verified_certificate:
  assumes "sound C e"
  shows "sound C (case verifyCertificate C cert e of
      (Inl err, e2) \<Rightarrow> ban src e2
    | (Inr vc, e2) \<Rightarrow>
        if tooNew then (case at_slot C (vote_Slot (cert_Vote cert)) e2 of
            (None, e3) \<Rightarrow> e3
          | (Some s, e3) \<Rightarrow> if \<not> needs s (cert_Vote cert) then e3 else handleCertificate C vc e3)
        else handleCertificate C vc e2)"
proof (cases "verifyCertificate C cert e")
  case (Pair r e2)
  note v = verifyCertificate_sealed [OF Pair assms]
  show ?thesis
  proof (cases r)
    case (Inr vc)
    show ?thesis
      using v(1) v(2) [OF Inr] sound_at(1) [OF _ v(1)]
      by (cases rule: at_slot_cases [of C "vote_Slot (cert_Vote cert)" e2])
        (auto simp: Pair Inr intro: sound_intro)
  qed (use v(1) Pair in \<open>simp add: sound_intro\<close>)
qed

lemma sound_certificate_message [sound_intro]:
  assumes "sound C e"
  shows "sound C (handle_certificate_message C src data e)"
proof -
  have "sound C (snd (case at_slot C i e of (None, e1) \<Rightarrow> (False, e1) | (Some s, e1) \<Rightarrow> (needs s v, e1)))" for i v
    using assms sound_at(1) [OF _ assms] by (cases rule: at_slot_cases [of C i e]) auto
  then show ?thesis
    using assms unfolding handle_certificate_message_def Let_def
    by (auto intro!: sound_drop sound_verified_certificate split: sum.split option.split)
qed

lemma sound_handleMessage [sound_intro]: "sound C e \<Longrightarrow> sound C (handleMessage C src srcV data e)"
  by (auto simp: handleMessage_def dest: sound_isBanned intro!: sound_intro split: prod.split bool.split)

lemma sound_apply_verified:
  assumes "sound C e" and "pending_vote_ok C p" and "pv_ok p \<longrightarrow> verifyPendingVote C p"
  shows "sound C (apply_verified C tooNew p e)"
proof (cases "isBanned (pv_src p) e")
  case (Pair b e1)
  have e1: "sound C e1" using sound_isBanned [OF Pair assms(1)] .
  show ?thesis
  proof (cases rule: at_slot_cases [of C "vote_Slot (pv_vote p)" e1])
    case (gone e2)
    then show ?thesis
      using e1 sound_at(1) [OF gone e1] by (auto simp: apply_verified_def Pair split: bool.split)
  next
    case (slot s e2)
    have e2: "sound C e2" using sound_at(1) [OF slot e1] .
    obtain a e3 where ap: "applyVote C (pv_idx p) (pv_vote p) (pv_sig p) False e2 = (a, e3)" by fastforce
    have "sound C e3" if "pv_ok p"
      using sound_applyVote [OF e2 _ _ _ ap] assms(2,3) that
      by (simp add: pending_vote_ok_def verifyPendingVote_def)
    then show ?thesis
      using e1 e2 by (auto simp: apply_verified_def Pair slot ap intro: sound_intro split: bool.split)
  qed
qed

lemma sound_apply_batch:
  "sound C e \<Longrightarrow> \<forall>p \<in> set ps. pending_vote_ok C p \<and> (pv_ok p \<longrightarrow> verifyPendingVote C p) \<Longrightarrow>
     sound C (apply_batch C t ps e)"
  by (induction ps arbitrary: e) (simp_all add: sound_apply_verified)

lemma sound_flushVerify [sound_intro]:
  assumes "sound C e"
  shows "sound C (flushVerify C e)"
proof -
  have "pending_vote_ok C p \<and> (pv_ok p \<longrightarrow> verifyPendingVote C p)"
    if "p \<in> set (verifyPendingVotes C (pendingVerify e))" for p
    using that assms by (auto simp: verifyPendingVotes_def sound_def pending_vote_ok_def verifyPendingVote_def)
  then show ?thesis
    using assms by (simp add: flushVerify_def Let_def sound_apply_batch sound_pendingVerify)
qed

lemma sound_drain_loop: "sound C e \<Longrightarrow> sound C (drain_loop C t rate d e)"
proof (induction C t rate d e rule: drain_loop.induct)
  case (1 C t rate d e)
  then show ?case
    by (subst drain_loop.simps) (auto simp: Let_def sound_intro)
qed

lemma sound_standstill [sound_intro]:
  "sound C e \<Longrightarrow> sound C (stepDrain C t e)" "sound C e \<Longrightarrow> sound C (fireStandstill C t e)"
  by (simp_all add: stepDrain_def fireStandstill_def startDrain_def Let_def sound_drain_loop sound_intro
      split: option.split)

lemma sound_timers [sound_intro]: "sound C e \<Longrightarrow> sound C (advance_timers C e)"
proof -
  have "sound C (due_alarm C t e)" "sound C (due_standstill C t e)" "sound C (due_drain C t e)" if "sound C e" for t e
    using that by (simp_all add: due_alarm_def due_standstill_def due_drain_def sound_intro split: option.split)
  then show "sound C e \<Longrightarrow> ?thesis" by (simp add: advance_timers_def Let_def sound_flushVerify)
qed

section \<open>Sessions\<close>

lemma sound_SubmitCandidate: "sound C e \<Longrightarrow> sound C (snd (SubmitCandidate C c e))"
  by (auto simp: SubmitCandidate_def Let_def intro!: sound_async(2) sound_acceptCandidate
      split: sum.split option.split)

lemma sound_handle:
  assumes "sound C e" and "\<forall>c. completion_of ev = Some c \<longrightarrow> completion_ok C c"
  shows "sound C (handle C ev e)"
proof (cases ev)
  case (ICandidate c)
  then show ?thesis using assms(1) by (simp add: handle_def sound_SubmitCandidate)
next
  case IStop
  then show ?thesis using assms(1) by (simp add: handle_def Stop_def sound_def)
next
  case (IPrecheck i b ch)
  then show ?thesis using assms(1) by (simp add: handle_def PrecheckCandidateBroadcast_def)
next
  case (IParams p)
  then show ?thesis using assms(1) by (simp add: handle_def UpdateParams_def split: sum.split)
next
  case IFlush
  then show ?thesis
    using assms(1) by (simp add: handle_def FlushVerify_def sound_async sound_intro sound_pendingVerify)
qed (use assms in \<open>auto simp: handle_def HandleMessage_def handleMessageBatched_def Advance_def
      intro!: sound_async sound_intro\<close>)

lemma sound_turn:
  assumes "sound C e" and "enabled (snd x) e"
  shows "sound C (turn C x e)"
proof -
  have "completion_ok C c" if "completion_of (snd x) = Some c" for c
    using assms that by (auto simp: enabled_def sound_def)
  moreover have "sound C (take_completion (snd x) (e\<lparr>clock := fst x\<rparr>))"
    using assms(1) by (auto simp: take_completion_def sound_def dest: notin_set_remove1 split: option.split)
  ultimately show ?thesis by (simp add: turn_def sound_handle)
qed

lemma sound_new:
  assumes "signer_ok C"
  shows "sound C (newEngineState p (localIndex C) clk)"
  using assms by (simp add: sound_def newEngineState_def)

lemma sound_replay_certificates:
  "replay_certificates C vcs e = (r, e') \<Longrightarrow> sound C e \<Longrightarrow> \<forall>vc \<in> set vcs. sealed_ok C vc \<Longrightarrow> sound C e'"
proof (induction vcs arbitrary: e)
  case (Cons vc vcs)
  show ?case
  proof (cases rule: at_slot_cases [of C "vote_Slot (cert_Vote (s_cert vc))" e])
    case (gone e1)
    then show ?thesis using Cons sound_at(1) [OF gone Cons.prems(2)] by simp
  next
    case (slot s e1)
    have "sound C (storeSavedCertificate C s vc e1)"
      using sound_at [OF slot Cons.prems(2)] at_slot_horizon(2) [OF slot] Cons.prems(3)
      by (auto intro: sound_storeSavedCertificate)
    then show ?thesis
      using Cons sound_at(1) [OF slot Cons.prems(2)] by (auto simp: slot Let_def split: if_splits)
  qed
qed simp

lemma sound_replay_votes: "sound C e \<Longrightarrow> \<forall>v \<in> set vs. vote_wf v \<Longrightarrow> sound C (replay_votes C vs e)"
  by (induction vs arbitrary: e) (auto intro: sound_intro)

lemma NewEngine_config:
  assumes "NewEngine X cfg clk = Inr (C, e0)"
  shows "cf_ext C = X" and "NewCertificateVerifier X (sessionID C) (validators C) = Inr (certs C)"
    and "localIndex C = ObserverIndex \<or> 0 \<le> localIndex C \<and> localIndex C < int (length (validators C))"
    and "\<exists>p. e0 = newEngineState p (localIndex C) clk" and "0 < spw C"
proof -
  from assms obtain cv where cv: "NewCertificateVerifier X (sc_SessionID cfg) (sc_Validators cfg) = Inr cv"
    "certs C = cv" "cf_ext C = X" "localIndex C = sc_LocalIndex cfg" "spw C = sc_SlotsPerLeaderWindow cfg"
    and range: "sc_LocalIndex cfg = ObserverIndex
      \<or> 0 \<le> sc_LocalIndex cfg \<and> sc_LocalIndex cfg < int (length (sc_Validators cfg))"
    and "0 < sc_SlotsPerLeaderWindow cfg"
    and e0: "e0 = newEngineState (case sc_Params cfg of Some q \<Rightarrow> q | None \<Rightarrow> DefaultParams) (localIndex C) clk"
    by (auto simp: NewEngine_def Let_def word_gt_0 not_le not_less split: if_splits sum.splits)
  note f = NewCertificateVerifier_fields [OF cv(1)]
  show "cf_ext C = X" "NewCertificateVerifier X (sessionID C) (validators C) = Inr (certs C)"
    "localIndex C = ObserverIndex \<or> 0 \<le> localIndex C \<and> localIndex C < int (length (validators C))"
    "\<exists>p. e0 = newEngineState p (localIndex C) clk" "0 < spw C"
    using cv range e0 f \<open>0 < sc_SlotsPerLeaderWindow cfg\<close> by auto
qed

text \<open>Our signer produces valid signatures under the key the roster lists for us.\<close>

definition signer_holds_key :: "config \<Rightarrow> bool" where
  "signer_holds_key C \<longleftrightarrow> (\<forall>v sig. localIndex C \<noteq> ObserverIndex
     \<longrightarrow> signer_Sign (cf_ext C) (payload_of C v) = Inr sig \<longrightarrow> signed_ok C (nat (localIndex C)) v sig)"

lemma load_bootstrap_sealed:
  assumes "NewCertificateVerifier (cf_ext C) (sessionID C) (validators C) = Inr (certs C)"
    and "handed_ok C handed" and "load_bootstrap C (Inr (Some st)) handed = Inr vb"
  shows "vb_state vb = Some st" and "\<forall>vc \<in> set (vb_sealed vb). sealed_ok C vc"
    and "bs_Certificates st = map (\<lambda>s. Some (s_cert s)) (vb_sealed vb)"
proof -
  have "\<exists>st'. ValidateBootstrap (cf_ext C) (sessionID C) (validators C) (Some st') = Inr vb \<and> vb_state vb = Some st"
  proof (cases "\<not> bootstrap_matches handed (Some st) \<or> vb_binding handed \<noteq> cv_binding (certs C)")
    case True
    then have "ValidateBootstrap (cf_ext C) (sessionID C) (validators C) (Some st) = Inr vb"
      using assms(3) by (auto simp: load_bootstrap_def)
    then show ?thesis using validated_bootstrap [OF assms(1)] by blast
  next
    case False
    then have vb: "vb = handed" "vb_state handed = Some st"
      using assms(3) by (auto simp: load_bootstrap_def bootstrap_matches_eq)
    then obtain st' where st': "ValidateBootstrap (cf_ext C) (sessionID C) (validators C) st' = Inr handed"
      using assms(2) by (auto simp: handed_ok_def)
    moreover have "st' \<noteq> None" using st' by (cases st') (auto simp: ValidateBootstrap_def)
    ultimately show ?thesis using vb by auto
  qed
  then obtain st' where v: "ValidateBootstrap (cf_ext C) (sessionID C) (validators C) (Some st') = Inr vb"
    and st: "vb_state vb = Some st" by blast
  note b = validated_bootstrap [OF assms(1) v]
  show "vb_state vb = Some st" "bs_Certificates st = map (\<lambda>s. Some (s_cert s)) (vb_sealed vb)"
    using b st by auto
  show "\<forall>vc \<in> set (vb_sealed vb). sealed_ok C vc"
    using b by (auto simp: sealed_ok_def cert_valid_def)
qed

lemma sound_Start:
  assumes "sound C e0" and "Start C journal handed e0 = (r, e)"
    and vb: "\<And>vb. load_bootstrap C journal handed = Inr vb \<Longrightarrow> (\<forall>vc \<in> set (vb_sealed vb). sealed_ok C vc)
      \<and> (\<forall>bs. vb_state vb = Some bs \<longrightarrow> (\<forall>v \<in> set (bs_OurVotes bs). vote_wf v))"
  shows "sound C e"
proof (cases "load_bootstrap C journal handed")
  case (Inl err)
  then show ?thesis using assms(1,2) by (auto simp: Start_def split: if_splits)
next
  case (Inr vb)
  show ?thesis
  proof (cases "vb_state vb")
    case None
    then show ?thesis using assms(1,2) Inr by (auto simp: Start_def split: if_splits)
  next
    case (Some bs)
    obtain q e4 where q: "replay_certificates C (vb_sealed vb) (recover C bs e0) = (q, e4)" by fastforce
    have "sound C (recover C bs e0)"
      using assms(1) by (simp add: recover_def Let_def sound_add_base sound_bootstrapVoter)
    then have e4: "sound C e4" using sound_replay_certificates [OF q] vb [OF Inr] by simp
    have e6: "sound C (replay_votes C (bs_OurVotes bs) (drainPending C (e4\<lparr>suppressCertBroadcast := False\<rparr>)))"
      using e4 vb [OF Inr] Some by (intro sound_replay_votes sound_drainPending) auto
    have "sound C (begin_session C e)" if "sound C e" for e
      using that by (simp add: begin_session_def Let_def sound_drainPending sound_advancePresent sound_trace sound_startup)
    then show ?thesis
      using assms(1,2) e4 e6 Inr Some q by (auto simp: Start_def Let_def split: if_splits option.splits)
  qed
qed

lemma session_sound:
  assumes "session C st evs e" and "signer_holds_key C" and "length (validators C) \<le> 2 ^ 32"
    and "\<forall>v \<in> set (bs_OurVotes st). vote_wf v"
  shows "sound C e"
  using assms(1)
proof induction
  case (boot X cfg clk e0 handed e)
  note c = NewEngine_config [OF boot(1)]
  have "signer_ok C" using assms(2,3) c(3) by (auto simp: signer_ok_def signer_holds_key_def)
  then have "sound C e0" using c(4) sound_new by auto
  then show ?case
    using boot(3) load_bootstrap_sealed [of C handed st] c(1,2) boot(2) assms(4)
    by (auto intro: sound_Start)
next
  case (input evs e x)
  then show ?case by (simp add: sound_turn)
qed

text \<open>A valid certificate passes the verifier and is sealed for the session.\<close>

lemma cert_valid_verifies:
  assumes "cert_valid C c"
  shows "verifier_Verify (cf_ext C) (certs C) (Some c)
    = Inr (Some \<lparr>s_cert = c, s_binding = cv_binding (certs C)\<rparr>)"
proof -
  have v: "valid_certificate (cf_ext C) (validators C) (threshold C) (payload_of C (cert_Vote c)) c"
    and w: "validateCertificateVote (cert_Vote c) = Inr ()"
    using assms by (auto simp: cert_valid_def validateCertificateVote_def vote_wf_def split: voteKind.split)
  then have "\<not> length (cert_Signatures c) > length (validators C)"
    using distinct_bounded_length [of "signers c" "length (validators C)"]
    by (simp add: valid_certificate_def signers_def)
  moreover have "verifyCertificatePayload (cf_ext C) (validators C) (threshold C)
      (DataToSign (cf_ext C) (sessionID C) (VoteBytes (cf_ext C) (cert_Vote c))) c = Inr ()"
    using v by (simp add: verifyCertificatePayload_iff vote_payload_def)
  ultimately show ?thesis
    using w by (simp add: verifier_Verify_def sealCertificate_def cloneCertificate_def)
qed

lemma sealed_ok_verifies:
  "sealed_ok C vc \<Longrightarrow> verifier_Verify (cf_ext C) (certs C) (Some (s_cert vc)) = Inr (Some vc)"
  using cert_valid_verifies [of C "s_cert vc"] by (cases vc) (simp add: sealed_ok_def)

lemma signer_holds_key_solo: "signer_holds_key solo_C"
  by (simp add: signer_holds_key_def solo_sig_def ed25519_SignatureSize_def)

text \<open>
  C1. In every session, whatever the peers send and in whatever order writes complete: every
  certificate the engine submits to the journal, obtains, or reports as a notarization or
  finalization passes full verification against the roster and the session. The certificates
  it assembles from single votes and seals without checking them again are included.
\<close>

theorem session_certificates_verify:
  assumes "session C st evs e" and "signer_holds_key C" and "length (validators C) \<le> 2 ^ 32"
    and "\<forall>v \<in> set (bs_OurVotes st). vote_wf v"
  shows "(OJournal (SaveCertificate c) \<in> set (outs e) \<or> OObtained c \<in> set (outs e) \<longrightarrow>
            verifier_Verify (cf_ext C) (certs C) (Some c)
              = Inr (Some \<lparr>s_cert = c, s_binding = cv_binding (certs C)\<rparr>))
    \<and> (OHook (HNotarized i vc) \<in> set (outs e) \<longrightarrow> cert_Vote (s_cert vc) = NotarizeVote i
            \<and> verifier_Verify (cf_ext C) (certs C) (Some (s_cert vc)) = Inr (Some vc))
    \<and> (OHook (HFinalized i vc) \<in> set (outs e) \<longrightarrow> cert_Vote (s_cert vc) = FinalizeVote i
            \<and> verifier_Verify (cf_ext C) (certs C) (Some (s_cert vc)) = Inr (Some vc))"
proof -
  have "\<forall>x \<in> set (outs e). out_ok C x"
    using session_sound [OF assms] by (simp add: sound_def)
  then show ?thesis by (auto simp: cert_valid_verifies sealed_ok_verifies)
qed

theorem session_certificates_verify_witness:
  "verifier_Verify solo_ext (certs solo_C) (Some (solo_cert (FinalizeVote solo_id)))
     = Inr (Some (solo_sealed (FinalizeVote solo_id)))"
proof -
  have "OHook (HFinalized solo_id (solo_sealed (FinalizeVote solo_id))) \<in> set (outs solo_e7)"
    by (simp add: solo_e7_def)
  moreover have "s_cert (solo_sealed (FinalizeVote solo_id)) = solo_cert (FinalizeVote solo_id)"
    by (simp add: solo_sealed_def)
  ultimately show ?thesis
    using session_certificates_verify [OF solo_session signer_holds_key_solo, of "solo_cert (FinalizeVote solo_id)" solo_id
      "solo_sealed (FinalizeVote solo_id)"] by (simp add: solo_journal_def)
qed

end
