(* ===== verification/EngineVotes.thy ===== *)
theory EngineVotes
  imports EngineFrame EngineSound
begin

text \<open>
  The votes of the local validator: the order journal, sign, send; and that they never
  contradict each other, across restarts.
\<close>

section \<open>Journal, then sign, then send\<close>













end
