(* ===== verification/Shard.thy ===== *)
theory Shard
  imports Prelude
begin

text \<open>
  \<open>service/shard/shard.go\<close>: shard identifiers. An identifier is a 64-bit word whose lowest set
  bit, the tag, ends the prefix; \<open>int64\<close> and \<open>uint64\<close> have the same bit pattern, so both are
  \<open>u64\<close>. The specification is the set \<open>covers\<close> of account prefixes of a shard: containment,
  intersection, splitting and merging are the operations on these sets.
\<close>

unbundle bit_operations_syntax

section \<open>Identifiers\<close>

definition MaxPrefixLength :: nat where
  "MaxPrefixLength = 63"

definition Root :: u64 where
  "Root = push_bit 63 1"

datatype shardErr = ErrInvalidID | ErrInvalidDepth | ErrCannotSplitID | ErrRootHasNoParent

text \<open>\<open>bits.TrailingZeros64\<close> and \<open>bits.LeadingZeros64\<close>.\<close>

definition TrailingZeros64 :: "u64 \<Rightarrow> nat" where
  "TrailingZeros64 x = length (takeWhile (\<lambda>i. \<not> bit x i) [0 ..< 64])"

definition LeadingZeros64 :: "u64 \<Rightarrow> nat" where
  "LeadingZeros64 x = length (takeWhile (\<lambda>i. \<not> bit x (63 - i)) [0 ..< 64])"

definition prefixLength :: "u64 \<Rightarrow> nat" where
  "prefixLength v = 63 - TrailingZeros64 v"

definition Validate_shard :: "u64 \<Rightarrow> shardErr + unit" where
  "Validate_shard v = (if v = 0 then Inl ErrInvalidID else Inr ())"

definition PrefixLength :: "u64 \<Rightarrow> shardErr + nat" where
  "PrefixLength v =
     (case Validate_shard v of Inl err \<Rightarrow> Inl err | Inr _ \<Rightarrow> Inr (prefixLength v))"

text \<open>\<open>^uint64(0) << (64 - depth)\<close>; a Go shift by the width gives zero, as \<open>push_bit\<close> does.\<close>

definition prefix_mask :: "nat \<Rightarrow> u64" where
  "prefix_mask depth = push_bit (64 - depth) (NOT 0)"

definition Intersects :: "u64 \<Rightarrow> u64 \<Rightarrow> bool" where
  "Intersects left right \<longleftrightarrow>
     (if left = 0 \<or> right = 0 then False
      else
        let depth = (if prefixLength right < prefixLength left then prefixLength right else prefixLength left)
        in if depth = 0 then True
           else left AND prefix_mask depth = right AND prefix_mask depth)"

definition IsNeighbor :: "u32 \<Rightarrow> u64 \<Rightarrow> u32 \<Rightarrow> u64 \<Rightarrow> bool" where
  "IsNeighbor leftWorkchain left rightWorkchain right \<longleftrightarrow>
     (if left = 0 \<or> right = 0 then False
      else if (leftWorkchain = - 1 \<and> left = Root) \<or> (rightWorkchain = - 1 \<and> right = Root) then True
      else
        let leftLowest = left AND (- left);
            rightLowest = right AND (- right);
            maskBoundary = push_bit 1 (max leftLowest rightLowest);
            difference = (left XOR right) AND (- maskBoundary)
        in if difference = 0 then True
           else if leftWorkchain \<noteq> rightWorkchain then False
           else LeadingZeros64 difference div 4 + TrailingZeros64 difference div 4 = 15)"

definition Contains :: "u64 \<Rightarrow> u64 \<Rightarrow> bool" where
  "Contains parent child \<longleftrightarrow>
     (if parent = 0 \<or> child = 0 then False
      else if prefixLength child < prefixLength parent then False
      else if prefixLength parent = 0 then True
      else parent AND prefix_mask (prefixLength parent) = child AND prefix_mask (prefixLength parent))"

definition Child :: "u64 \<Rightarrow> bool \<Rightarrow> shardErr + u64" where
  "Child parent left =
     (case Validate_shard parent of
        Inl err \<Rightarrow> Inl err
      | Inr _ \<Rightarrow>
          (let step = drop_bit 1 (parent AND (- parent))
           in if step = 0 then Inl ErrCannotSplitID
              else if left then Inr (parent - step) else Inr (parent + step)))"

definition IsDirectChild :: "u64 \<Rightarrow> u64 \<Rightarrow> bool" where
  "IsDirectChild parent child \<longleftrightarrow>
     (if parent = 0 \<or> child = 0 then False
      else prefixLength child = prefixLength parent + 1 \<and> Contains parent child)"

definition Ancestor :: "u64 \<Rightarrow> nat \<Rightarrow> shardErr + u64" where
  "Ancestor v depth =
     (case PrefixLength v of
        Inl err \<Rightarrow> Inl err
      | Inr idDepth \<Rightarrow>
          if depth > idDepth then Inl ErrInvalidDepth
          else if depth = 0 then Inr Root
          else Inr ((v AND prefix_mask depth) OR push_bit (63 - depth) 1))"

definition ShardParent :: "u64 \<Rightarrow> shardErr + u64" where
  "ShardParent v =
     (case PrefixLength v of
        Inl err \<Rightarrow> Inl err
      | Inr depth \<Rightarrow> if depth = 0 then Inl ErrRootHasNoParent else Ancestor v (depth - 1))"

definition FromAccountPrefix :: "u64 \<Rightarrow> nat \<Rightarrow> shardErr + u64" where
  "FromAccountPrefix pfx depth =
     (if depth > MaxPrefixLength then Inl ErrInvalidDepth
      else if depth = 0 then Inr Root
      else
        let marker = push_bit (63 - depth) 1
        in Inr ((pfx AND NOT (marker - 1)) OR marker))"

definition Prefix :: "u64 \<Rightarrow> nat \<Rightarrow> shardErr + u64" where
  "Prefix v splitDepth =
     (case Validate_shard v of
        Inl err \<Rightarrow> Inl err
      | Inr _ \<Rightarrow>
          if splitDepth > MaxPrefixLength then Inl ErrInvalidDepth
          else if splitDepth = 0 then Inr v
          else
            let value = v OR 1
            in if splitDepth = MaxPrefixLength then Inr value
               else Inr ((value AND prefix_mask splitDepth) OR push_bit (63 - splitDepth) 1))"

section \<open>Bits of an identifier\<close>

lemma takeWhile_upt:
  assumes "k < n" and "\<not> P k"
  shows "length (takeWhile P [0 ..< n]) < n" and "\<not> P (length (takeWhile P [0 ..< n]))"
    and "i < length (takeWhile P [0 ..< n]) \<Longrightarrow> P i"
proof -
  let ?t = "length (takeWhile P [0 ..< n])"
  have le: "?t \<le> n" using length_takeWhile_le [of P "[0 ..< n]"] by simp
  have all: "P i" if "i < ?t" for i
    using nth_mem [of i "takeWhile P [0 ..< n]"] that le set_takeWhileD [of _ P "[0 ..< n]"]
    by (fastforce simp: takeWhile_nth)
  show lt: "?t < n" using le all [of k] assms by (cases "?t = n") auto
  show "\<not> P ?t" using nth_length_takeWhile [of P "[0 ..< n]"] lt by simp
  show "i < ?t \<Longrightarrow> P i" by (rule all)
qed

lemma trailing_zeros:
  assumes "x \<noteq> 0"
  shows "TrailingZeros64 x < 64" and "bit x (TrailingZeros64 x)" and "i < TrailingZeros64 x \<Longrightarrow> \<not> bit x i"
proof -
  obtain k where "bit x k" using assms bit_eq_iff [of x 0] by auto
  then have k: "k < 64" "\<not> \<not> bit x k" using bit_imp_le_length [of x k] by auto
  note t = takeWhile_upt [of k 64 "\<lambda>i. \<not> bit x i", OF k, folded TrailingZeros64_def]
  show "TrailingZeros64 x < 64" by (rule t(1))
  show "bit x (TrailingZeros64 x)" using t(2) by blast
  show "i < TrailingZeros64 x \<Longrightarrow> \<not> bit x i" by (rule t(3))
qed

lemma trailing_zeros_unique:
  assumes "bit x t" and "\<And>i. i < t \<Longrightarrow> \<not> bit x i"
  shows "TrailingZeros64 x = t"
proof -
  have "x \<noteq> 0" using assms(1) by auto
  note tz = trailing_zeros [OF this]
  show ?thesis using tz(2,3) assms by (meson linorder_neqE_nat)
qed

lemma disjoint_add: "(\<And>i. \<not> bit a i \<or> \<not> bit b i) \<Longrightarrow> a + b = a OR b" for a b :: u64
  by (rule disjunctive_add)

text \<open>\<open>value & -value\<close> is the tag bit.\<close>

lemma tag_bit:
  assumes "x \<noteq> 0"
  shows "x AND - x = push_bit (TrailingZeros64 x) 1"
proof -
  let ?t = "TrailingZeros64 x" and ?b = "push_bit (TrailingZeros64 x) 1 :: u64"
  note tz = trailing_zeros [OF assms]
  let ?h = "x AND NOT ?b"
  have x: "x = ?h + ?b"
  proof -
    have "?h + ?b = ?h OR ?b" by (rule disjoint_add) (auto simp: bit_simps)
    also have "\<dots> = x" by (rule bit_word_eqI) (use tz in \<open>auto simp: bit_simps\<close>)
    finally show ?thesis by simp
  qed
  have "?b - 1 = mask ?t" by (simp add: mask_eq_exp_minus_1 push_bit_eq_mult)
  then have "x - 1 = ?h + mask ?t" by (subst x) (simp add: algebra_simps)
  also have "\<dots> = ?h OR mask ?t"
    by (rule disjoint_add) (use tz in \<open>auto simp: bit_simps\<close>)
  finally have "- x = NOT (?h OR mask ?t)" by (simp add: minus_eq_not_minus_1)
  then have neg: "- x = NOT ?h AND NOT (mask ?t)" by (simp add: bit.de_Morgan_disj)
  show ?thesis
  proof (rule bit_word_eqI)
    fix n assume n: "n < LENGTH(64)"
    consider "n < ?t" | "n = ?t" | "?t < n" by linarith
    then show "bit (x AND - x) n = bit ?b n"
      unfolding neg using n tz by cases (auto simp: bit_simps)
  qed
qed

definition covers :: "u64 \<Rightarrow> u64 set" where
  "covers v = {a. \<forall>i < 64. TrailingZeros64 v < i \<longrightarrow> bit a i = bit v i}"

lemma masked_eq_iff:
  "a AND prefix_mask d = b AND prefix_mask d \<longleftrightarrow> (\<forall>i < 64. 64 - d \<le> i \<longrightarrow> bit a i = bit b i)"
proof -
  have m: "bit (prefix_mask d) i \<longleftrightarrow> 64 - d \<le> i \<and> i < 64" for i by (auto simp: prefix_mask_def bit_simps)
  have "bit a i = bit b i" if "a AND prefix_mask d = b AND prefix_mask d" "64 - d \<le> i" "i < 64" for i
    using arg_cong [OF that(1), of "\<lambda>x. bit x i"] that(2,3) by (simp add: bit_and_iff m)
  moreover have "a AND prefix_mask d = b AND prefix_mask d" if "\<forall>i < 64. 64 - d \<le> i \<longrightarrow> bit a i = bit b i"
    by (rule bit_word_eqI) (use that in \<open>auto simp: bit_and_iff m\<close>)
  ultimately show ?thesis by blast
qed

lemma prefixLength_tz: "x \<noteq> 0 \<Longrightarrow> 64 - prefixLength x = TrailingZeros64 x + 1" "x \<noteq> 0 \<Longrightarrow> prefixLength x \<le> 63"
  using trailing_zeros(1) [of x] by (simp_all add: prefixLength_def)

lemma self_covers: "v \<in> covers v"
  by (simp add: covers_def)

lemma covers_trans: "TrailingZeros64 c \<le> TrailingZeros64 p \<Longrightarrow> c \<in> covers p \<Longrightarrow> covers c \<subseteq> covers p"
  by (auto simp: covers_def)

lemma Contains_bits:
  "Contains p c \<longleftrightarrow> p \<noteq> 0 \<and> c \<noteq> 0 \<and> TrailingZeros64 c \<le> TrailingZeros64 p \<and> c \<in> covers p"
proof (cases "p = 0 \<or> c = 0")
  case False
  then have tz: "TrailingZeros64 p < 64" "TrailingZeros64 c < 64" using trailing_zeros(1) by auto
  show ?thesis
    using False tz prefixLength_tz(1) [of p]
    by (auto simp: Contains_def covers_def masked_eq_iff prefixLength_def Suc_le_eq not_less)
qed (auto simp: Contains_def)

text \<open>A shard with a longer prefix has fewer accounts.\<close>

lemma covers_depth:
  assumes "c \<noteq> 0" and "covers c \<subseteq> covers p"
  shows "TrailingZeros64 c \<le> TrailingZeros64 p"
proof (rule ccontr)
  let ?t = "TrailingZeros64 c" and ?c = "c XOR push_bit (TrailingZeros64 c) 1"
  assume t: "\<not> ?t \<le> TrailingZeros64 p"
  have flip: "bit ?c i \<longleftrightarrow> (if i = ?t then \<not> bit c i else bit c i)" if "i < 64" for i
    using that by (auto simp: bit_simps)
  then have "?c \<in> covers c" by (simp add: covers_def)
  then have "?c \<in> covers p" "c \<in> covers p" using assms(2) self_covers by blast+
  then have "bit ?c ?t = bit p ?t" "bit c ?t = bit p ?t"
    using t trailing_zeros(1) [OF assms(1)] unfolding covers_def by (simp_all only: mem_Collect_eq not_le)
  then show False using flip [OF trailing_zeros(1) [OF assms(1)]] by simp
qed

lemma Contains_covers: "Contains p c \<longleftrightarrow> p \<noteq> 0 \<and> c \<noteq> 0 \<and> covers c \<subseteq> covers p"
  using covers_trans covers_depth self_covers by (auto simp: Contains_bits)

text \<open>Two shards share an account exactly when one contains the other.\<close>

lemma Intersects_Contains: "Intersects l r \<longleftrightarrow> Contains l r \<or> Contains r l"
proof (cases "l = 0 \<or> r = 0")
  case False
  then have tz: "TrailingZeros64 l < 64" "TrailingZeros64 r < 64" using trailing_zeros(1) by auto
  have len: "prefixLength r < prefixLength l \<longleftrightarrow> TrailingZeros64 l < TrailingZeros64 r"
    using tz by (auto simp: prefixLength_def)
  show ?thesis
  proof (cases "TrailingZeros64 l < TrailingZeros64 r")
    case True
    then have "Intersects l r \<longleftrightarrow> Contains r l"
      using False len by (auto simp: Intersects_def Contains_def Let_def)
    moreover have "\<not> Contains l r" using True by (simp add: Contains_bits)
    ultimately show ?thesis by simp
  next
    case ge: False
    then have "Intersects l r \<longleftrightarrow> Contains l r"
      using False len by (auto simp: Intersects_def Contains_def prefixLength_def Let_def)
    moreover have "Contains r l \<Longrightarrow> Contains l r"
      using ge by (auto simp: Contains_bits covers_def)
    ultimately show ?thesis by blast
  qed
qed (auto simp: Intersects_def Contains_def)

lemma covers_meet:
  assumes "l \<noteq> 0" and "r \<noteq> 0" and "covers l \<inter> covers r \<noteq> {}"
  shows "Contains l r \<or> Contains r l"
proof -
  obtain a where a: "a \<in> covers l" "a \<in> covers r" using assms(3) by blast
  show ?thesis
  proof (cases "TrailingZeros64 r \<le> TrailingZeros64 l")
    case True
    then have "r \<in> covers l" using a by (auto simp: covers_def)
    with True assms show ?thesis by (simp add: Contains_bits)
  next
    case False
    then have "l \<in> covers r" using a by (auto simp: covers_def)
    with False assms show ?thesis by (simp add: Contains_bits)
  qed
qed

text \<open>
  C12. The bit arithmetic of the shard predicates decides the set relations it stands for:
  \<open>Contains\<close> is inclusion of the covered account prefixes, \<open>Intersects\<close> is a common account
  prefix, and two shards that share an account are nested.
\<close>

theorem shard_relations:
  "(Contains p c \<longleftrightarrow> p \<noteq> 0 \<and> c \<noteq> 0 \<and> covers c \<subseteq> covers p)
   \<and> (Intersects l r \<longleftrightarrow> l \<noteq> 0 \<and> r \<noteq> 0 \<and> covers l \<inter> covers r \<noteq> {})
   \<and> (Intersects l r \<longleftrightarrow> Contains l r \<or> Contains r l)"
proof (intro conjI)
  show "Contains p c \<longleftrightarrow> p \<noteq> 0 \<and> c \<noteq> 0 \<and> covers c \<subseteq> covers p" by (rule Contains_covers)
  show i: "Intersects l r \<longleftrightarrow> Contains l r \<or> Contains r l" by (rule Intersects_Contains)
  show "Intersects l r \<longleftrightarrow> l \<noteq> 0 \<and> r \<noteq> 0 \<and> covers l \<inter> covers r \<noteq> {}"
  proof
    assume "Intersects l r"
    then show "l \<noteq> 0 \<and> r \<noteq> 0 \<and> covers l \<inter> covers r \<noteq> {}"
      using i self_covers by (fastforce simp: Contains_bits)
  next
    assume "l \<noteq> 0 \<and> r \<noteq> 0 \<and> covers l \<inter> covers r \<noteq> {}"
    then show "Intersects l r" using i covers_meet by blast
  qed
qed

section \<open>Splitting and merging\<close>

lemma id_ext:
  fixes x y :: u64
  assumes "bit x t" "bit y t" and "\<And>i. i < t \<Longrightarrow> \<not> bit x i \<and> \<not> bit y i"
    and "\<And>i. t < i \<Longrightarrow> i < 64 \<Longrightarrow> bit x i = bit y i"
  shows "x = y"
proof (rule bit_word_eqI)
  fix i assume "i < LENGTH(64)"
  then show "bit x i = bit y i" using assms by (cases i t rule: linorder_cases) auto
qed

text \<open>The shard of depth \<open>63 - t\<close> on the path of \<open>v\<close>.\<close>

definition tagged :: "u64 \<Rightarrow> nat \<Rightarrow> u64 \<Rightarrow> bool" where
  "tagged v t s \<longleftrightarrow> t < 64 \<and> bit s t \<and> (\<forall>i < t. \<not> bit s i) \<and> (\<forall>i < 64. t < i \<longrightarrow> bit s i = bit v i)"

lemma tagged_iff: "tagged v t s \<longleftrightarrow> s \<noteq> 0 \<and> TrailingZeros64 s = t \<and> v \<in> covers s"
proof
  assume l: "tagged v t s"
  then have "TrailingZeros64 s = t" by (intro trailing_zeros_unique) (auto simp: tagged_def)
  with l show "s \<noteq> 0 \<and> TrailingZeros64 s = t \<and> v \<in> covers s" by (auto simp: tagged_def covers_def)
next
  assume "s \<noteq> 0 \<and> TrailingZeros64 s = t \<and> v \<in> covers s"
  then show "tagged v t s" using trailing_zeros [of s] by (auto simp: tagged_def covers_def)
qed

lemma tagged_unique: "tagged v t s \<Longrightarrow> tagged v t s' \<Longrightarrow> s = s'"
  by (rule id_ext [of s t s']) (auto simp: tagged_def)

lemma tagged_depth: "tagged v t s \<Longrightarrow> prefixLength s = 63 - t"
  by (simp add: tagged_iff prefixLength_def)

lemma tag_after_mask:
  assumes "0 < d" and "d \<le> 63"
  shows "tagged v (63 - d) ((v AND prefix_mask d) OR push_bit (63 - d) 1)"
proof -
  have "bit ((v AND prefix_mask d) OR push_bit (63 - d) 1) i \<longleftrightarrow> bit v i \<and> 64 - d \<le> i \<or> i = 63 - d" if "i < 64" for i
    using that by (auto simp: prefix_mask_def bit_simps)
  then show ?thesis using assms by (auto simp: tagged_def)
qed

lemma bit_tag: "bit (push_bit n 1 :: u64) i \<longleftrightarrow> i = n \<and> i < 64"
  by (auto simp: bit_simps)

lemma Root_tagged: "tagged v 63 Root"
proof -
  have "bit Root i \<longleftrightarrow> i = 63" for i unfolding Root_def bit_tag by auto
  then show ?thesis by (auto simp: tagged_def)
qed

lemma FromAccountPrefix_tagged: "d \<le> 63 \<Longrightarrow> \<exists>s. FromAccountPrefix v d = Inr s \<and> tagged v (63 - d) s"
proof (cases "d = 0")
  case False
  assume d: "d \<le> 63"
  let ?m = "push_bit (63 - d) 1 :: u64"
  have "?m - 1 = mask (63 - d)" by (simp add: mask_eq_exp_minus_1 push_bit_eq_mult)
  then have "bit ((v AND NOT (?m - 1)) OR ?m) i \<longleftrightarrow> bit v i \<and> 63 - d \<le> i \<or> i = 63 - d" if "i < 64" for i
    using that by (auto simp: bit_simps)
  then have "tagged v (63 - d) ((v AND NOT (?m - 1)) OR ?m)" using d by (auto simp: tagged_def)
  then show ?thesis using False d by (simp add: FromAccountPrefix_def MaxPrefixLength_def Let_def)
qed (simp add: FromAccountPrefix_def MaxPrefixLength_def Root_tagged)

lemma Ancestor_tagged:
  "v \<noteq> 0 \<Longrightarrow> d \<le> prefixLength v \<Longrightarrow> \<exists>s. Ancestor v d = Inr s \<and> tagged v (63 - d) s"
  using prefixLength_tz(2) [of v] tag_after_mask [of d v] Root_tagged [of v]
  by (auto simp: Ancestor_def PrefixLength_def Validate_shard_def)

lemma Prefix_tagged:
  assumes "v \<noteq> 0" and "0 < d" and "d \<le> 63"
  shows "\<exists>s. Prefix v d = Inr s \<and> tagged v (63 - d) s"
proof (cases "d = 63")
  case True
  have "tagged v 0 (v OR 1)" by (auto simp: tagged_def bit_simps)
  then show ?thesis using assms True by (simp add: Prefix_def Validate_shard_def MaxPrefixLength_def)
next
  case False
  have "bit (v OR 1) i = bit v i" if "63 - d < i" for i using that by (auto simp: bit_simps)
  then have "tagged v (63 - d) (((v OR 1) AND prefix_mask d) OR push_bit (63 - d) 1)"
    using tag_after_mask [of d "v OR 1"] assms by (auto simp: tagged_def)
  then show ?thesis using assms False by (simp add: Prefix_def Validate_shard_def MaxPrefixLength_def)
qed

text \<open>
  C14. \<open>FromAccountPrefix\<close> returns the one shard of the requested depth that covers the account
  prefix; \<open>Ancestor\<close>, where it is defined, and the archive's \<open>Prefix\<close> compute the same shard by
  different masks.
\<close>

theorem shard_at_depth:
  "(FromAccountPrefix v d = Inr s \<longleftrightarrow> s \<noteq> 0 \<and> prefixLength s = d \<and> v \<in> covers s)
   \<and> Ancestor v d = (if v = 0 then Inl ErrInvalidID else if d > prefixLength v then Inl ErrInvalidDepth
        else FromAccountPrefix v d)
   \<and> Prefix v d = (if v = 0 then Inl ErrInvalidID else if d = 0 then Inr v else FromAccountPrefix v d)"
proof (intro conjI)
  show "FromAccountPrefix v d = Inr s \<longleftrightarrow> s \<noteq> 0 \<and> prefixLength s = d \<and> v \<in> covers s"
  proof (cases "d \<le> 63")
    case True
    then obtain s' where s': "FromAccountPrefix v d = Inr s'" "tagged v (63 - d) s'"
      using FromAccountPrefix_tagged by blast
    have "tagged v (63 - d) s \<longleftrightarrow> s \<noteq> 0 \<and> prefixLength s = d \<and> v \<in> covers s"
      using True trailing_zeros(1) [of s] by (auto simp: tagged_iff prefixLength_def)
    then show ?thesis using s' tagged_unique by auto
  next
    case False
    then show ?thesis
      using prefixLength_tz(2) [of s] by (auto simp: FromAccountPrefix_def MaxPrefixLength_def)
  qed
  show "Ancestor v d = (if v = 0 then Inl ErrInvalidID else if d > prefixLength v then Inl ErrInvalidDepth
        else FromAccountPrefix v d)"
  proof (cases "v = 0 \<or> d > prefixLength v")
    case False
    then obtain s s' where "Ancestor v d = Inr s" "tagged v (63 - d) s"
      "FromAccountPrefix v d = Inr s'" "tagged v (63 - d) s'"
      using Ancestor_tagged [of v d] FromAccountPrefix_tagged [of d v] prefixLength_tz(2) [of v] by auto
    then show ?thesis using False tagged_unique [of v "63 - d" s s'] by simp
  qed (auto simp: Ancestor_def PrefixLength_def Validate_shard_def)
  show "Prefix v d = (if v = 0 then Inl ErrInvalidID else if d = 0 then Inr v else FromAccountPrefix v d)"
  proof (cases "v = 0 \<or> d = 0 \<or> d > 63")
    case False
    then obtain s s' where "Prefix v d = Inr s" "tagged v (63 - d) s"
      "FromAccountPrefix v d = Inr s'" "tagged v (63 - d) s'"
      using Prefix_tagged [of v d] FromAccountPrefix_tagged [of d v] by auto
    then show ?thesis using False tagged_unique [of v "63 - d" s s'] by simp
  qed (auto simp: Prefix_def FromAccountPrefix_def Validate_shard_def MaxPrefixLength_def)
qed

lemma split_tag:
  fixes p s b :: u64
  assumes s: "\<And>i. bit s i \<longleftrightarrow> i = k" and b: "\<And>i. bit b i \<longleftrightarrow> i = Suc k" and dbl: "b = s + s"
    and p: "bit p (Suc k)" "\<And>i. i \<le> k \<Longrightarrow> \<not> bit p i"
  shows "bit (p + s) i \<longleftrightarrow> bit p i \<or> i = k" and "bit (p - s) i \<longleftrightarrow> bit p i \<and> i \<noteq> Suc k \<or> i = k"
proof -
  have "p + s = p OR s" by (rule disjoint_add) (use p(2) [of k] in \<open>auto simp: s\<close>)
  then show "bit (p + s) i \<longleftrightarrow> bit p i \<or> i = k" by (simp add: bit_or_iff s)
  define h where "h = p AND NOT b"
  have h: "bit h i \<longleftrightarrow> bit p i \<and> i \<noteq> Suc k" for i
    using bit_imp_le_length [of p i] by (simp add: h_def bit_and_iff bit_not_iff b) blast
  have "h + b = h OR b" by (rule disjoint_add) (simp add: h b)
  also have "\<dots> = p" by (rule bit_word_eqI) (use p(1) in \<open>auto simp: bit_or_iff h b\<close>)
  finally have "p = h + s + s" by (simp add: dbl add.assoc)
  then have "p - s = h + s" by simp
  also have "\<dots> = h OR s" by (rule disjoint_add) (use p(2) [of k] in \<open>auto simp: h s\<close>)
  finally show "bit (p - s) i \<longleftrightarrow> bit p i \<and> i \<noteq> Suc k \<or> i = k" by (simp add: bit_or_iff s h)
qed

lemma Child_tagged:
  assumes "p \<noteq> 0" and t: "TrailingZeros64 p = Suc k"
  shows "\<exists>c. Child p left = Inr c \<and> bit c (Suc k) = (\<not> left) \<and> bit c k
    \<and> (\<forall>i < k. \<not> bit c i) \<and> (\<forall>i < 64. Suc k < i \<longrightarrow> bit c i = bit p i)"
proof -
  note tz = trailing_zeros [OF assms(1), unfolded t]
  obtain s :: u64 where s: "s = push_bit k 1" by simp
  obtain b :: u64 where b: "b = push_bit (Suc k) 1" by simp
  have sb: "bit s i \<longleftrightarrow> i = k" "bit b i \<longleftrightarrow> i = Suc k" for i
    using tz(1) unfolding s b bit_tag by auto
  have dbl: "b = s + s" unfolding s b by (simp add: push_bit_eq_mult)
  have "drop_bit 1 (p AND - p) = s"
    unfolding tag_bit [OF assms(1)] t b [symmetric]
    by (rule bit_word_eqI) (simp add: bit_drop_bit_eq sb)
  moreover have "s \<noteq> 0" using sb(1) [of k] by auto
  ultimately have "Child p left = Inr (if left then p - s else p + s)"
    using assms(1) by (simp add: Child_def Validate_shard_def)
  moreover note split_tag [OF sb dbl tz(2) tz(3)]
  ultimately show ?thesis using tz by auto
qed

lemma Child_covers:
  assumes "p \<noteq> 0" and t: "TrailingZeros64 p = Suc k" and c: "Child p left = Inr c"
  shows "c \<noteq> 0" and "TrailingZeros64 c = k"
    and "covers c = {a \<in> covers p. bit a (Suc k) = (\<not> left)}" and "ShardParent c = Inr p"
proof -
  have b: "bit c (Suc k) = (\<not> left)" "bit c k" "\<forall>i < k. \<not> bit c i" "\<forall>i < 64. Suc k < i \<longrightarrow> bit c i = bit p i"
    using Child_tagged [OF assms(1,2), of left] c by auto
  note tz = trailing_zeros [OF assms(1), unfolded t]
  show nz: "c \<noteq> 0" using b(2) by auto
  show tc: "TrailingZeros64 c = k" using b by (intro trailing_zeros_unique) auto
  show "covers c = {a \<in> covers p. bit a (Suc k) = (\<not> left)}"
  proof -
    have "(\<forall>i < 64. k < i \<longrightarrow> bit a i = bit c i) \<longleftrightarrow> (\<forall>i < 64. Suc k < i \<longrightarrow> bit a i = bit p i) \<and> bit a (Suc k) = (\<not> left)" for a
    proof
      assume a: "\<forall>i < 64. k < i \<longrightarrow> bit a i = bit c i"
      then have "bit a (Suc k) = bit c (Suc k)" using tz(1) by simp
      then show "(\<forall>i < 64. Suc k < i \<longrightarrow> bit a i = bit p i) \<and> bit a (Suc k) = (\<not> left)" using a b(1,4) by simp
    next
      assume a: "(\<forall>i < 64. Suc k < i \<longrightarrow> bit a i = bit p i) \<and> bit a (Suc k) = (\<not> left)"
      show "\<forall>i < 64. k < i \<longrightarrow> bit a i = bit c i"
      proof (intro allI impI)
        fix i assume "i < (64::nat)" "k < i"
        then show "bit a i = bit c i" using a b(1,4) by (cases "i = Suc k") simp_all
      qed
    qed
    then show ?thesis unfolding covers_def tc t by blast
  qed
  have len: "prefixLength c = 63 - k" by (simp add: prefixLength_def tc)
  have "tagged c (Suc k) p" using tz b by (auto simp: tagged_def less_Suc_eq_le)
  moreover have "\<exists>s. Ancestor c (prefixLength c - 1) = Inr s \<and> tagged c (Suc k) s"
    using Ancestor_tagged [OF nz, of "prefixLength c - 1"] tz(1) len by (simp add: Suc_diff_Suc)
  moreover have "prefixLength c \<noteq> 0" using len tz(1) by simp
  ultimately show "ShardParent c = Inr p"
    using nz tagged_unique by (auto simp: ShardParent_def PrefixLength_def Validate_shard_def)
qed

lemma shard_split:
  assumes "p \<noteq> 0" and t: "TrailingZeros64 p = Suc k"
  shows "\<exists>l r. Child p True = Inr l \<and> Child p False = Inr r
        \<and> covers l \<union> covers r = covers p \<and> covers l \<inter> covers r = {}
        \<and> IsDirectChild p l \<and> IsDirectChild p r \<and> ShardParent l = Inr p \<and> ShardParent r = Inr p"
proof -
  obtain l where l: "Child p True = Inr l" using Child_tagged [OF assms, of True] by blast
  obtain r where r: "Child p False = Inr r" using Child_tagged [OF assms, of False] by blast
  note cl = Child_covers [OF assms l] and cr = Child_covers [OF assms r]
  have "IsDirectChild p l" "IsDirectChild p r"
    using cl(1-3) cr(1-3) assms trailing_zeros(1) [OF assms(1)]
    by (simp_all add: IsDirectChild_def Contains_covers prefixLength_def)
  moreover have "covers l \<union> covers r = covers p" "covers l \<inter> covers r = {}"
    unfolding cl(3) cr(3) by blast+
  ultimately show ?thesis using l r cl(4) cr(4) by blast
qed

lemma shard_unsplittable:
  assumes "p \<noteq> 0" and t: "TrailingZeros64 p = 0"
  shows "Child p left = Inl ErrCannotSplitID"
proof -
  have "drop_bit 1 (p AND - p) = 0" unfolding tag_bit [OF assms(1)] t by simp
  then show ?thesis unfolding Child_def Let_def Validate_shard_def using assms(1) by simp
qed

lemma shard_merge:
  assumes "p \<noteq> 0" and "prefixLength p \<noteq> 0"
  shows "\<exists>q left. ShardParent p = Inr q \<and> Child q left = Inr p"
proof -
  let ?k = "TrailingZeros64 p"
  have k: "63 - (prefixLength p - 1) = Suc ?k" using assms(2) by (auto simp: prefixLength_def)
  obtain q where q: "ShardParent p = Inr q" "tagged p (Suc ?k) q"
    using Ancestor_tagged [OF assms(1), of "prefixLength p - 1"] assms k
    by (auto simp: ShardParent_def PrefixLength_def Validate_shard_def)
  then have q': "q \<noteq> 0" "TrailingZeros64 q = Suc ?k" by (auto simp: tagged_iff)
  obtain c where c: "Child q (\<not> bit p (Suc ?k)) = Inr c" using Child_tagged [OF q'] by blast
  note cc = Child_covers [OF q' c]
  have "p \<in> covers c" using cc(3) q(2) by (simp add: tagged_iff)
  then have "tagged p ?k c" using cc(1,2) by (simp add: tagged_iff)
  moreover have "tagged p ?k p" using assms self_covers by (simp add: tagged_iff)
  ultimately have "c = p" by (rule tagged_unique)
  then show ?thesis using q(1) c by blast
qed

text \<open>
  C13. Splitting a shard gives two shards that partition its accounts, and \<open>Parent\<close> undoes the
  split; a shard that already has the longest prefix cannot be split, the root has no parent,
  and every other shard is one of the two children of its parent.
\<close>

theorem shard_split_merge:
  assumes "p \<noteq> 0"
  shows "(if prefixLength p = 63 then \<forall>left. Child p left = Inl ErrCannotSplitID
     else \<exists>l r. Child p True = Inr l \<and> Child p False = Inr r
        \<and> covers l \<union> covers r = covers p \<and> covers l \<inter> covers r = {}
        \<and> IsDirectChild p l \<and> IsDirectChild p r \<and> ShardParent l = Inr p \<and> ShardParent r = Inr p)
   \<and> (if prefixLength p = 0 then ShardParent p = Inl ErrRootHasNoParent
      else \<exists>q left. ShardParent p = Inr q \<and> Child q left = Inr p)"
proof -
  have "prefixLength p = 63 \<Longrightarrow> TrailingZeros64 p = 0" using trailing_zeros(1) [OF assms] by (simp add: prefixLength_def)
  then have unsplit: "prefixLength p = 63 \<Longrightarrow> \<forall>left. Child p left = Inl ErrCannotSplitID"
    using shard_unsplittable [OF assms] by blast
  obtain k where k: "prefixLength p \<noteq> 63 \<Longrightarrow> TrailingZeros64 p = Suc k"
    by (cases "TrailingZeros64 p") (auto simp: prefixLength_def)
  have root: "prefixLength p = 0 \<Longrightarrow> ShardParent p = Inl ErrRootHasNoParent"
    using assms by (simp add: ShardParent_def PrefixLength_def Validate_shard_def)
  show ?thesis
    using unsplit root shard_split [OF assms k] shard_merge [OF assms] by presburger
qed

theorem shard_split_merge_witness: "ShardParent (push_bit 62 3) = Inr Root"
proof -
  have "prefixLength Root = 0" by code_simp
  moreover have "Child Root False = Inr (push_bit 62 3)" by code_simp
  moreover have "Root \<noteq> 0" by code_simp
  ultimately show ?thesis using shard_split_merge [of Root] by auto
qed

section \<open>Neighbours\<close>

text \<open>The bits above the tags in which two shards differ.\<close>

definition differ :: "u64 \<Rightarrow> u64 \<Rightarrow> nat \<Rightarrow> bool" where
  "differ l r i \<longleftrightarrow> i < 64 \<and> TrailingZeros64 l < i \<and> TrailingZeros64 r < i \<and> bit l i \<noteq> bit r i"

lemma exp_le_iff: "a < 64 \<Longrightarrow> b < 64 \<Longrightarrow> push_bit a 1 \<le> (push_bit b 1 :: u64) \<longleftrightarrow> a \<le> b"
proof -
  assume "a < 64" "b < 64"
  then have "unat (push_bit a 1 :: u64) = 2 ^ a" "unat (push_bit b 1 :: u64) = 2 ^ b"
    by (simp_all only: unsigned_push_bit_eq) (simp_all add: push_bit_eq_mult take_bit_nat_eq_self)
  then show ?thesis by (simp only: word_le_nat_alt) simp
qed

lemma neighbor_difference:
  assumes "l \<noteq> 0" and "r \<noteq> 0"
  shows "bit ((l XOR r) AND - push_bit 1 (max (l AND - l) (r AND - r))) i \<longleftrightarrow> differ l r i"
proof -
  let ?a = "TrailingZeros64 l" and ?b = "TrailingZeros64 r"
  let ?m = "max ?a ?b"
  have tz: "?a < 64" "?b < 64" using assms trailing_zeros(1) by auto
  have "max (push_bit ?a 1) (push_bit ?b 1 :: u64) = push_bit ?m 1"
    using exp_le_iff [OF tz] unfolding max_def by presburger
  then have "max (l AND - l) (r AND - r) = push_bit ?m 1"
    unfolding tag_bit [OF assms(1)] tag_bit [OF assms(2)] .
  moreover have "push_bit 1 (push_bit ?m 1) = (push_bit (Suc ?m) 1 :: u64)" by simp
  moreover have "- push_bit (Suc ?m) 1 = (NOT (mask (Suc ?m)) :: u64)"
    by (simp add: mask_eq_exp_minus_1 minus_eq_not_minus_1 push_bit_eq_mult)
  ultimately have eq: "- push_bit 1 (max (l AND - l) (r AND - r)) = NOT (mask (Suc ?m))" by metis
  show ?thesis
    unfolding eq by (auto simp: bit_and_iff bit_xor_iff bit_not_iff bit_mask_iff differ_def)
qed

lemma no_difference:
  assumes "l \<noteq> 0" and "r \<noteq> 0"
  shows "(\<forall>i. \<not> differ l r i) \<longleftrightarrow> Intersects l r"
proof (cases "TrailingZeros64 r \<le> TrailingZeros64 l")
  case True
  then have "(\<forall>i. \<not> differ l r i) \<longleftrightarrow> r \<in> covers l" by (auto simp: covers_def differ_def)
  moreover have "Contains r l \<Longrightarrow> r \<in> covers l" using True by (auto simp: Contains_bits covers_def)
  ultimately show ?thesis using assms True by (auto simp: Intersects_Contains Contains_bits)
next
  case False
  then have "(\<forall>i. \<not> differ l r i) \<longleftrightarrow> l \<in> covers r" by (auto simp: covers_def differ_def)
  then show ?thesis using assms False by (simp add: Intersects_Contains Contains_bits)
qed

lemma leading_zeros:
  assumes "x \<noteq> 0"
  shows "LeadingZeros64 x < 64" and "bit x (63 - LeadingZeros64 x)" and "63 - LeadingZeros64 x < i \<Longrightarrow> \<not> bit x i"
proof -
  obtain k where "bit x k" using assms bit_eq_iff [of x 0] by auto
  then have k: "63 - k < 64" "\<not> \<not> bit x (63 - (63 - k))" using bit_imp_le_length [of x k] by auto
  note t = takeWhile_upt [of "63 - k" 64 "\<lambda>i. \<not> bit x (63 - i)", OF k, folded LeadingZeros64_def]
  show "LeadingZeros64 x < 64" by (rule t(1))
  show "bit x (63 - LeadingZeros64 x)" using t(2) by blast
  assume i: "63 - LeadingZeros64 x < i"
  show "\<not> bit x i"
  proof (cases "i < 64")
    case True
    then show ?thesis using t(3) [of "63 - i"] i by simp
  qed (use bit_imp_le_length [of x i] in auto)
qed

lemma same_group:
  assumes "d \<noteq> 0"
  shows "LeadingZeros64 d div 4 + TrailingZeros64 d div 4 = 15 \<longleftrightarrow> (\<exists>g. {i. bit d i} \<subseteq> {4 * g ..< 4 * g + 4})"
proof -
  define hi lo where "hi = 63 - LeadingZeros64 d" and "lo = TrailingZeros64 d"
  note h = leading_zeros [OF assms, folded hi_def] and l = trailing_zeros [OF assms, folded lo_def]
  have range: "lo \<le> i" "i \<le> hi" if "bit d i" for i using that h(3) l(3) by (meson not_less)+
  have hi: "LeadingZeros64 d = 63 - hi" "hi \<le> 63" using h(1) by (simp_all add: hi_def)
  have q: "4 * (hi div 4) + hi mod 4 = hi" "hi mod 4 < 4" by simp_all
  then have "63 - hi = 4 * (15 - hi div 4) + (3 - hi mod 4)" "3 - hi mod 4 < 4" using hi(2) by linarith+
  then have "(63 - hi) div 4 = 15 - hi div 4" by (metis div_mult_self4 div_less add_0 zero_neq_numeral add.right_neutral)
  moreover have "hi div 4 \<le> 15" using q hi(2) by linarith
  moreover have "lo div 4 \<le> hi div 4" by (rule div_le_mono [OF range(1) [OF h(2)]])
  ultimately have "LeadingZeros64 d div 4 + lo div 4 = 15 \<longleftrightarrow> hi div 4 = lo div 4" unfolding hi(1) by linarith
  also have "\<dots> \<longleftrightarrow> (\<exists>g. {i. bit d i} \<subseteq> {4 * g ..< 4 * g + 4})"
  proof
    assume e: "hi div 4 = lo div 4"
    have "i \<in> {4 * (lo div 4) ..< 4 * (lo div 4) + 4}" if "bit d i" for i
    proof -
      have "i div 4 = lo div 4"
        using div_le_mono [OF range(1) [OF that], of 4] div_le_mono [OF range(2) [OF that], of 4] e by simp
      then show ?thesis by auto
    qed
    then show "\<exists>g. {i. bit d i} \<subseteq> {4 * g ..< 4 * g + 4}" by blast
  next
    assume "\<exists>g. {i. bit d i} \<subseteq> {4 * g ..< 4 * g + 4}"
    then obtain g where "hi \<in> {4 * g ..< 4 * g + 4}" "lo \<in> {4 * g ..< 4 * g + 4}" using h(2) l(2) by blast
    then have "hi div 4 = g" "lo div 4 = g" by (simp_all add: div_nat_eqI)
    then show "hi div 4 = lo div 4" by simp
  qed
  finally show ?thesis by (simp only: lo_def)
qed

lemma IsNeighbor_iff:
  "IsNeighbor w l w' r \<longleftrightarrow> l \<noteq> 0 \<and> r \<noteq> 0
      \<and> ((w = - 1 \<and> l = Root) \<or> (w' = - 1 \<and> r = Root) \<or> Intersects l r
         \<or> w = w' \<and> (\<exists>g. {i. differ l r i} \<subseteq> {4 * g ..< 4 * g + 4}))"
proof (cases "l = 0 \<or> r = 0 \<or> (w = - 1 \<and> l = Root) \<or> (w' = - 1 \<and> r = Root)")
  case False
  then have nz: "l \<noteq> 0" "r \<noteq> 0" by auto
  define d where "d = (l XOR r) AND - push_bit 1 (max (l AND - l) (r AND - r))"
  have d: "bit d i \<longleftrightarrow> differ l r i" for i unfolding d_def by (rule neighbor_difference [OF nz])
  have zero: "d = 0 \<longleftrightarrow> Intersects l r"
  proof -
    have "d = 0 \<longleftrightarrow> (\<forall>i. \<not> bit d i)" by (metis bit_0_eq bit_eqI bot_apply bot_bool_def)
    then show ?thesis using no_difference [OF nz] d by simp
  qed
  have "IsNeighbor w l w' r \<longleftrightarrow> (if d = 0 then True else if w \<noteq> w' then False
      else LeadingZeros64 d div 4 + TrailingZeros64 d div 4 = 15)"
    using False unfolding IsNeighbor_def Let_def d_def [symmetric] by argo
  also have "\<dots> \<longleftrightarrow> Intersects l r \<or> w = w' \<and> (\<exists>g. {i. bit d i} \<subseteq> {4 * g ..< 4 * g + 4})"
    using zero same_group [of d] by presburger
  finally show ?thesis using False unfolding d by blast
qed (auto simp: IsNeighbor_def)

text \<open>
  C15. The bit arithmetic of \<open>IsNeighbor\<close>: valid shards are neighbours when one is the masterchain
  root, when their prefixes intersect, or when, in the same workchain, all bits in which the
  common part of the prefixes differs lie in one four-bit routing group; the relation is symmetric.
\<close>

theorem IsNeighbor_routing:
  "(IsNeighbor w l w' r \<longleftrightarrow> l \<noteq> 0 \<and> r \<noteq> 0
      \<and> ((w = - 1 \<and> l = Root) \<or> (w' = - 1 \<and> r = Root) \<or> Intersects l r
         \<or> w = w' \<and> (\<exists>g. {i. differ l r i} \<subseteq> {4 * g ..< 4 * g + 4})))
   \<and> IsNeighbor w l w' r = IsNeighbor w' r w l"
proof -
  have "{i. differ l r i} = {i. differ r l i}" by (auto simp: differ_def)
  moreover have "Intersects l r = Intersects r l" by (auto simp: Intersects_Contains)
  ultimately have "IsNeighbor w l w' r = IsNeighbor w' r w l"
    unfolding IsNeighbor_iff [of w l w' r] IsNeighbor_iff [of w' r w l] by (simp only:) blast
  then show ?thesis using IsNeighbor_iff by blast
qed

end
