(* ===== verification/Packfile.thy ===== *)
theory Packfile
  imports SimplexWire
begin

text \<open>
  \<open>service/archive/packfile/packfile.go\<close>: the archive pack format, a magic number followed by
  framed entries. Both readers, over a stream and over a byte slice, and the appender with its
  rollback. A handler is called once per entry in order, so a reader returns the entries it
  handed over and its error. The outcome of a system call (a write may stop anywhere) is an
  argument.
\<close>

unbundle bit_operations_syntax

section \<open>Format\<close>

definition PackageMagic :: u32 where "PackageMagic = 0xae8fdd01"
definition EntryMagic :: u32 where "EntryMagic = 0x1e8b"
definition HeaderSize :: nat where "HeaderSize = 4"
definition EntryHeaderSize :: nat where "EntryHeaderSize = 8"
definition MaxDataSize :: nat where "MaxDataSize = 2 ^ 31 - 1"
definition MaxNameSize :: nat where "MaxNameSize = 2 ^ 16 - 1"

record packEntry =
  pe_Name :: bytes
  pe_Data :: bytes
  EntryOffset :: nat
  DataOffset :: nat
  DataSize :: nat

record packPointer =
  pp_Offset :: nat
  pp_Size :: nat

datatype ioErr = EOF | ErrUnexpectedEOF | OtherIO string

datatype packErr =
    EReadMagic ioErr | EMagicMismatch | ECancelled | EReadHeader ioErr | EEntryMagic
  | EEntryTooLarge nat | EReadName ioErr | EReadData ioErr | EHandler string
  | ETooShort | ENameTooLarge nat | EDataTooLarge nat | EIO | ERollback

section \<open>Reading a stream\<close>

text \<open>
  A reader is the bytes it delivers and the error it ends with. \<open>io.ReadFull\<close> returns the
  number of bytes read with the error.
\<close>

record stream =
  content :: bytes
  ending :: ioErr

definition io_ReadFull :: "nat \<Rightarrow> stream \<Rightarrow> (ioErr \<times> nat) + bytes \<times> stream" where
  "io_ReadFull n r =
     (if n \<le> length (content r) then Inr (take n (content r), r\<lparr>content := drop n (content r)\<rparr>)
      else Inl (if ending r = EOF \<and> content r \<noteq> [] then ErrUnexpectedEOF else ending r, length (content r)))"

text \<open>The header fields; \<open>nameLen\<close> is the upper half of the first word.\<close>

abbreviation name_len :: "bytes \<Rightarrow> nat" where
  "name_len header \<equiv> unat (drop_bit 16 (get_le32 header))"

abbreviation data_len :: "bytes \<Rightarrow> nat" where
  "data_len header \<equiv> unat (get_le32 (drop 4 header))"

text \<open>One iteration up to the handler call: the loop stops, or an entry was read.\<close>

datatype 'r step = Stop "packErr option" | Got packEntry 'r

definition read_entry :: "nat \<Rightarrow> stream \<Rightarrow> stream step" where
  "read_entry offset r =
     (case io_ReadFull EntryHeaderSize r of
        Inl (err, n) \<Rightarrow>
          if err = EOF then Stop None
          else if err = ErrUnexpectedEOF \<and> n = 0 then Stop None
          else Stop (Some (EReadHeader err))
      | Inr (header, r1) \<Rightarrow>
          if get_le32 header AND 0xffff \<noteq> EntryMagic then Stop (Some EEntryMagic)
          else if data_len header > MaxDataSize then Stop (Some (EEntryTooLarge (data_len header)))
          else case io_ReadFull (name_len header) r1 of
            Inl (err, n) \<Rightarrow> Stop (Some (EReadName err))
          | Inr (name, r2) \<Rightarrow>
              (case io_ReadFull (data_len header) r2 of
                 Inl (err, n) \<Rightarrow> Stop (Some (EReadData err))
               | Inr (data, r3) \<Rightarrow>
                   Got \<lparr>pe_Name = name, pe_Data = data, EntryOffset = offset,
                        DataOffset = offset + EntryHeaderSize + name_len header,
                        DataSize = data_len header\<rparr> r3))"

lemma read_entry_shrinks: "read_entry offset r = Got e r' \<Longrightarrow> length (content r') < length (content r)"
  by (auto simp: read_entry_def io_ReadFull_def EntryHeaderSize_def split: if_splits)

text \<open>\<open>handle\<close> gives the handler's error; \<open>cancelled k\<close> whether the context is done at iteration \<open>k\<close>.\<close>

function read_entries ::
  "(packEntry \<Rightarrow> string option) \<Rightarrow> (nat \<Rightarrow> bool) \<Rightarrow> nat \<Rightarrow> nat \<Rightarrow> stream \<Rightarrow> packEntry list \<times> packErr option" where
  "read_entries handle cancelled k offset r =
     (if cancelled k then ([], Some ECancelled)
      else case read_entry offset r of
        Stop err \<Rightarrow> ([], err)
      | Got e r1 \<Rightarrow>
          (case handle e of
             Some msg \<Rightarrow> ([e], Some (EHandler msg))
           | None \<Rightarrow> apfst (Cons e) (read_entries handle cancelled (k + 1) (DataOffset e + DataSize e) r1)))"
  by pat_completeness auto
termination
  by (relation "measure (\<lambda>(h, c, k, off, r). length (content r))") (auto dest: read_entry_shrinks)

definition Read ::
  "(packEntry \<Rightarrow> string option) \<Rightarrow> (nat \<Rightarrow> bool) \<Rightarrow> stream \<Rightarrow> packEntry list \<times> packErr option" where
  "Read handle cancelled r =
     (case io_ReadFull HeaderSize r of
        Inl (err, n) \<Rightarrow> ([], Some (EReadMagic err))
      | Inr (magic, r1) \<Rightarrow>
          if get_le32 magic \<noteq> PackageMagic then ([], Some EMagicMismatch)
          else read_entries handle cancelled 0 HeaderSize r1)"

section \<open>Reading a byte slice\<close>

text \<open>\<open>data[a : b]\<close>\<close>

abbreviation slice :: "nat \<Rightarrow> nat \<Rightarrow> bytes \<Rightarrow> bytes" where
  "slice a b xs \<equiv> take (b - a) (drop a xs)"

definition bytes_entry :: "nat \<Rightarrow> bytes \<Rightarrow> unit step" where
  "bytes_entry offset data =
     (if offset = length data then Stop None
      else if offset + EntryHeaderSize > length data then Stop (Some (EReadHeader ErrUnexpectedEOF))
      else
        let header0 = get_le32 (slice offset (offset + 4) data);
            nameLen = unat (drop_bit 16 header0);
            dataLen = unat (get_le32 (slice (offset + 4) (offset + 8) data));
            nameOffset = offset + EntryHeaderSize;
            dataOffset = nameOffset + nameLen
        in if header0 AND 0xffff \<noteq> EntryMagic then Stop (Some EEntryMagic)
           else if dataLen > MaxDataSize then Stop (Some (EEntryTooLarge dataLen))
           else if dataOffset + dataLen > length data then Stop (Some (EReadData ErrUnexpectedEOF))
           else Got \<lparr>pe_Name = slice nameOffset dataOffset data,
                     pe_Data = slice dataOffset (dataOffset + dataLen) data,
                     EntryOffset = offset, DataOffset = dataOffset, DataSize = dataLen\<rparr> ())"

lemma bytes_entry_advances:
  "bytes_entry offset data = Got e u \<Longrightarrow> offset < DataOffset e + DataSize e \<and> DataOffset e + DataSize e \<le> length data"
  by (auto simp: bytes_entry_def Let_def EntryHeaderSize_def split: if_splits)

function bytes_entries ::
  "(packEntry \<Rightarrow> string option) \<Rightarrow> (nat \<Rightarrow> bool) \<Rightarrow> nat \<Rightarrow> nat \<Rightarrow> bytes \<Rightarrow> packEntry list \<times> packErr option" where
  "bytes_entries handle cancelled k offset data =
     (if cancelled k then ([], Some ECancelled)
      else case bytes_entry offset data of
        Stop err \<Rightarrow> ([], err)
      | Got e _ \<Rightarrow>
          (case handle e of
             Some msg \<Rightarrow> ([e], Some (EHandler msg))
           | None \<Rightarrow> apfst (Cons e) (bytes_entries handle cancelled (k + 1) (DataOffset e + DataSize e) data)))"
  by pat_completeness auto
termination
  by (relation "measure (\<lambda>(h, c, k, off, data). length data - off)") (auto dest: bytes_entry_advances)

declare read_entries.simps [simp del] bytes_entries.simps [simp del]

definition ReadBytes ::
  "(packEntry \<Rightarrow> string option) \<Rightarrow> (nat \<Rightarrow> bool) \<Rightarrow> bytes \<Rightarrow> packEntry list \<times> packErr option" where
  "ReadBytes handle cancelled data =
     (if length data < HeaderSize then ([], Some (EReadMagic ErrUnexpectedEOF))
      else if get_le32 (take HeaderSize data) \<noteq> PackageMagic then ([], Some EMagicMismatch)
      else bytes_entries handle cancelled 0 HeaderSize data)"

section \<open>Appending\<close>

text \<open>A write that fails has written some prefix of its data.\<close>

datatype ioOutcome = Done | Fails nat

definition write_at :: "bytes \<Rightarrow> nat \<Rightarrow> bytes \<Rightarrow> bytes" where
  "write_at bs off f = take off f @ replicate (off - length f) 0 @ bs @ drop (off + length bs) f"

definition WriteAt :: "ioOutcome \<Rightarrow> bytes \<Rightarrow> nat \<Rightarrow> bytes \<Rightarrow> bool \<times> bytes" where
  "WriteAt oc bs off f =
     (case oc of Done \<Rightarrow> (True, write_at bs off f)
      | Fails n \<Rightarrow> (False, if n = 0 then f else write_at (take n bs) off f))"

text \<open>\<open>stat_ok\<close> and \<open>read_ok\<close> say whether \<open>Stat\<close> and \<open>ReadAt\<close> succeed.\<close>

definition ensureWithSize :: "bool \<Rightarrow> bool \<Rightarrow> ioOutcome \<Rightarrow> bytes \<Rightarrow> (packErr + nat) \<times> bytes" where
  "ensureWithSize stat_ok read_ok oc f =
     (if \<not> stat_ok then (Inl EIO, f)
      else if length f = 0 then
        (case WriteAt oc (put_le32 PackageMagic) 0 f of
           (False, f1) \<Rightarrow> (Inl EIO, f1)
         | (True, f1) \<Rightarrow> (Inr HeaderSize, f1))
      else if length f < HeaderSize then (Inl ETooShort, f)
      else if \<not> read_ok then (Inl EIO, f)
      else if get_le32 (take HeaderSize f) \<noteq> PackageMagic then (Inl EMagicMismatch, f)
      else (Inr (length f), f))"

record appender =
  a_file :: bytes
  a_offset :: nat

definition NewAppender :: "bool \<Rightarrow> bool \<Rightarrow> ioOutcome \<Rightarrow> bytes \<Rightarrow> packErr + appender" where
  "NewAppender stat_ok read_ok oc f =
     (case ensureWithSize stat_ok read_ok oc f of
        (Inl err, f1) \<Rightarrow> Inl err
      | (Inr offset, f1) \<Rightarrow> Inr \<lparr>a_file = f1, a_offset = offset\<rparr>)"

definition rollbackAppend :: "bool \<Rightarrow> bytes \<Rightarrow> nat \<Rightarrow> packErr \<times> bytes" where
  "rollbackAppend trunc f offset =
     (if \<not> trunc then (ERollback, f) else (EIO, take offset f @ replicate (offset - length f) 0))"

definition entry_header :: "nat \<Rightarrow> nat \<Rightarrow> bytes" where
  "entry_header n d = put_le32 (EntryMagic OR push_bit 16 (of_nat n)) @ put_le32 (of_nat d)"

text \<open>\<open>o1 o2 o3\<close> are the outcomes of the writes of header, name and data, \<open>trunc\<close> that of the rollback.\<close>

definition Append ::
  "ioOutcome \<Rightarrow> ioOutcome \<Rightarrow> ioOutcome \<Rightarrow> bool \<Rightarrow> bytes \<Rightarrow> bytes \<Rightarrow> appender \<Rightarrow> (packErr + packPointer) \<times> appender" where
  "Append o1 o2 o3 trunc name data a =
     (if length name > MaxNameSize then (Inl (ENameTooLarge (length name)), a)
      else if length data > MaxDataSize then (Inl (EDataTooLarge (length data)), a)
      else
        let entryOffset = a_offset a;
            dataOffset = entryOffset + EntryHeaderSize + length name;
            undo = (\<lambda>f. case rollbackAppend trunc f entryOffset of (err, f') \<Rightarrow> (Inl err, a\<lparr>a_file := f'\<rparr>))
        in case WriteAt o1 (entry_header (length name) (length data)) entryOffset (a_file a) of
             (False, f1) \<Rightarrow> undo f1
           | (True, f1) \<Rightarrow>
               (case WriteAt o2 name (entryOffset + EntryHeaderSize) f1 of
                  (False, f2) \<Rightarrow> undo f2
                | (True, f2) \<Rightarrow>
                    (case WriteAt o3 data dataOffset f2 of
                       (False, f3) \<Rightarrow> undo f3
                     | (True, f3) \<Rightarrow>
                         (Inr \<lparr>pp_Offset = dataOffset, pp_Size = length data\<rparr>,
                          \<lparr>a_file = f3, a_offset = dataOffset + length data\<rparr>))))"

definition Size :: "appender \<Rightarrow> nat" where
  "Size a = a_offset a"

section \<open>Both readers agree\<close>

lemma get_le32_take: "4 \<le> n \<Longrightarrow> get_le32 (take n xs) = get_le32 xs"
proof (cases "length xs < 4")
  case False
  then obtain a b c d ys where "xs = a # b # c # d # ys"
    by (cases xs; cases "tl xs"; cases "tl (tl xs)"; cases "tl (tl (tl xs))") auto
  then show "4 \<le> n \<Longrightarrow> ?thesis" by (simp add: take_Cons')
qed (simp add: take_all)

abbreviation memory :: "bytes \<Rightarrow> stream" where
  "memory bs \<equiv> \<lparr>content = bs, ending = EOF\<rparr>"

text \<open>The entry at the head of the bytes \<open>xs\<close> that are left at \<open>offset\<close>.\<close>

definition entry_at :: "nat \<Rightarrow> bytes \<Rightarrow> packEntry" where
  "entry_at offset xs =
     \<lparr>pe_Name = take (name_len xs) (drop 8 xs), pe_Data = take (data_len xs) (drop (8 + name_len xs) xs),
      EntryOffset = offset, DataOffset = offset + 8 + name_len xs, DataSize = data_len xs\<rparr>"

definition entry_end :: "bytes \<Rightarrow> nat" where
  "entry_end xs = 8 + name_len xs + data_len xs"

definition well_framed :: "bytes \<Rightarrow> bool" where
  "well_framed xs \<longleftrightarrow> 8 \<le> length xs \<and> get_le32 xs AND 0xffff = EntryMagic
     \<and> data_len xs \<le> MaxDataSize \<and> entry_end xs \<le> length xs"

lemma header_fields:
  "get_le32 (take 8 xs) = get_le32 xs" "get_le32 (drop 4 (take 8 xs)) = get_le32 (drop 4 xs)"
  by (simp_all add: get_le32_take drop_take)

lemma read_entry_memory:
  "\<exists>err. read_entry offset (memory xs) =
     (if xs = [] then Stop None else if well_framed xs then Got (entry_at offset xs) (memory (drop (entry_end xs) xs))
      else Stop (Some err))"
proof (cases "length xs < 8")
  case True
  then show ?thesis by (simp add: read_entry_def io_ReadFull_def EntryHeaderSize_def well_framed_def)
next
  case False
  then have h: "io_ReadFull 8 (memory xs) = Inr (take 8 xs, memory (drop 8 xs))"
    by (simp add: io_ReadFull_def)
  show ?thesis
  proof (cases "name_len xs \<le> length xs - 8")
    case n: True
    then have n': "io_ReadFull (name_len xs) (memory (drop 8 xs)) = Inr (take (name_len xs) (drop 8 xs), memory (drop (8 + name_len xs) xs))"
      by (simp add: io_ReadFull_def add.commute)
    show ?thesis
    proof (cases "data_len xs \<le> length xs - (8 + name_len xs)")
      case d: True
      then have "io_ReadFull (data_len xs) (memory (drop (8 + name_len xs) xs))
          = Inr (take (data_len xs) (drop (8 + name_len xs) xs), memory (drop (entry_end xs) xs))"
        by (simp add: io_ReadFull_def entry_end_def add_ac)
      moreover have "well_framed xs \<longleftrightarrow> get_le32 xs AND 0xffff = EntryMagic \<and> data_len xs \<le> MaxDataSize" "xs \<noteq> []"
        using False n d by (auto simp: well_framed_def entry_end_def)
      ultimately show ?thesis
        by (simp add: read_entry_def EntryHeaderSize_def h n' header_fields entry_at_def not_le [symmetric])
    next
      case d: False
      then have "\<exists>err. io_ReadFull (data_len xs) (memory (drop (8 + name_len xs) xs)) = Inl err"
        by (simp add: io_ReadFull_def)
      moreover have "\<not> well_framed xs" "xs \<noteq> []" using False n d by (auto simp: well_framed_def entry_end_def)
      ultimately show ?thesis
        by (auto simp: read_entry_def EntryHeaderSize_def h n' header_fields)
    qed
  next
    case n: False
    then have "\<exists>err. io_ReadFull (name_len xs) (memory (drop 8 xs)) = Inl err" by (simp add: io_ReadFull_def)
    moreover have "\<not> well_framed xs" "xs \<noteq> []" using False n by (auto simp: well_framed_def entry_end_def)
    ultimately show ?thesis by (auto simp: read_entry_def EntryHeaderSize_def h header_fields)
  qed
qed

lemma bytes_entry_memory:
  assumes "offset \<le> length data"
  defines "xs \<equiv> drop offset data"
  shows "\<exists>err. bytes_entry offset data =
     (if xs = [] then Stop None else if well_framed xs then Got (entry_at offset xs) () else Stop (Some err))"
proof -
  have fields: "get_le32 (slice offset (offset + 4) data) = get_le32 xs"
    "get_le32 (slice (offset + 4) (offset + 8) data) = get_le32 (drop 4 xs)"
    by (simp_all add: get_le32_take add.commute xs_def)
  have len: "length data = offset + length xs" using assms(1) by (simp add: xs_def)
  have sl: "slice (offset + a) (offset + b) data = take (b - a) (drop a xs)" for a b
    by (simp add: xs_def add.commute)
  have sl0: "slice (offset + a + c) (offset + a + c + b) data = take b (drop (a + c) xs)" for a b c
    by (simp add: xs_def add_ac)
  show ?thesis
    unfolding bytes_entry_def Let_def fields
    by (simp add: len well_framed_def entry_end_def entry_at_def EntryHeaderSize_def sl sl0 add.assoc [symmetric])
      (auto simp: xs_def add_ac)
qed

definition same_verdict :: "packEntry list \<times> packErr option \<Rightarrow> packEntry list \<times> packErr option \<Rightarrow> bool" where
  "same_verdict x y \<longleftrightarrow> fst x = fst y \<and> (snd x = None \<longleftrightarrow> snd y = None)"

lemma entry_at_end: "DataOffset (entry_at offset xs) + DataSize (entry_at offset xs) = offset + entry_end xs"
  by (simp add: entry_at_def entry_end_def)

lemma read_entries_same:
  assumes "offset \<le> length data"
  shows "same_verdict (read_entries handle cancelled k offset (memory (drop offset data)))
    (bytes_entries handle cancelled k offset data)"
  using assms
proof (induction "length data - offset" arbitrary: k offset rule: less_induct)
  case less
  let ?xs = "drop offset data" and ?o = "offset + entry_end (drop offset data)"
  obtain e1 e2 where step: "read_entry offset (memory ?xs) =
      (if ?xs = [] then Stop None else if well_framed ?xs then Got (entry_at offset ?xs) (memory (drop (entry_end ?xs) ?xs))
       else Stop (Some e1))"
    "bytes_entry offset data = (if ?xs = [] then Stop None else if well_framed ?xs then Got (entry_at offset ?xs) () else Stop (Some e2))"
    using read_entry_memory [of offset ?xs] bytes_entry_memory [OF less.prems] by blast
  have rest: "same_verdict (read_entries handle cancelled (k + 1) ?o (memory (drop ?o data))) (bytes_entries handle cancelled (k + 1) ?o data)"
    if "well_framed ?xs"
  proof -
    have "?o \<le> length data" "entry_end ?xs > 0" "offset < length data" using that less.prems by (auto simp: well_framed_def entry_end_def)
    then show ?thesis using less.hyps [of ?o "k + 1"] by simp
  qed
  have unfold: "read_entries handle cancelled k offset (memory ?xs) = (if cancelled k then ([], Some ECancelled)
      else case read_entry offset (memory ?xs) of Stop err \<Rightarrow> ([], err)
      | Got e r1 \<Rightarrow> (case handle e of Some msg \<Rightarrow> ([e], Some (EHandler msg))
           | None \<Rightarrow> apfst (Cons e) (read_entries handle cancelled (k + 1) (DataOffset e + DataSize e) r1)))"
    "bytes_entries handle cancelled k offset data = (if cancelled k then ([], Some ECancelled)
      else case bytes_entry offset data of Stop err \<Rightarrow> ([], err)
      | Got e _ \<Rightarrow> (case handle e of Some msg \<Rightarrow> ([e], Some (EHandler msg))
           | None \<Rightarrow> apfst (Cons e) (bytes_entries handle cancelled (k + 1) (DataOffset e + DataSize e) data)))"
    by (simp_all only: read_entries.simps [of handle cancelled k] bytes_entries.simps [of handle cancelled k])
  have dd: "drop (entry_end ?xs) ?xs = drop ?o data" by (simp add: add.commute)
  show ?case
    unfolding unfold step dd using rest by (auto simp: same_verdict_def entry_at_end split: option.split)
qed

text \<open>
  C23. \<open>ReadBytes\<close> mirrors \<open>Read\<close>: on every in-memory package, valid or not, both hand the same
  entries, with the same offsets and in the same order, to the handler, and both fail or both
  succeed, whatever the handler answers and whenever the context is cancelled.
\<close>

theorem ReadBytes_mirrors_Read:
  "fst (Read handle cancelled (memory data)) = fst (ReadBytes handle cancelled data)
   \<and> (snd (Read handle cancelled (memory data)) = None \<longleftrightarrow> snd (ReadBytes handle cancelled data) = None)"
proof (cases "length data < HeaderSize \<or> get_le32 (take HeaderSize data) \<noteq> PackageMagic")
  case True
  then show ?thesis by (auto simp: Read_def ReadBytes_def io_ReadFull_def)
next
  case False
  then show ?thesis
    using read_entries_same [of HeaderSize data handle cancelled 0]
    by (auto simp: Read_def ReadBytes_def io_ReadFull_def same_verdict_def)
qed

section \<open>Round trip\<close>

text \<open>The bytes of an entry, and of a package.\<close>

definition frame :: "bytes \<times> bytes \<Rightarrow> bytes" where
  "frame e = entry_header (length (fst e)) (length (snd e)) @ fst e @ snd e"

definition fits :: "bytes \<times> bytes \<Rightarrow> bool" where
  "fits e \<longleftrightarrow> length (fst e) \<le> MaxNameSize \<and> length (snd e) \<le> MaxDataSize"

definition package :: "(bytes \<times> bytes) list \<Rightarrow> bytes" where
  "package es = put_le32 PackageMagic @ concat (map frame es)"

text \<open>The entries a reader delivers for a package.\<close>

fun entries_from :: "nat \<Rightarrow> (bytes \<times> bytes) list \<Rightarrow> packEntry list" where
  "entries_from offset [] = []"
| "entries_from offset ((name, data) # es) =
     \<lparr>pe_Name = name, pe_Data = data, EntryOffset = offset, DataOffset = offset + 8 + length name,
      DataSize = length data\<rparr> # entries_from (offset + length (frame (name, data))) es"

lemma halves:
  fixes m n :: u32
  assumes m: "\<And>i. 16 \<le> i \<Longrightarrow> \<not> bit m i" and n: "\<And>i. 16 \<le> i \<Longrightarrow> \<not> bit n i"
  shows "(m OR push_bit 16 n) AND mask 16 = m" and "drop_bit 16 (m OR push_bit 16 n) = n"
proof -
  show "(m OR push_bit 16 n) AND mask 16 = m"
  proof (rule bit_word_eqI)
    fix i
    show "bit ((m OR push_bit 16 n) AND mask 16) i = bit m i"
      using m [of i] by (cases "i < 16") (simp_all add: bit_and_iff bit_or_iff bit_push_bit_iff bit_mask_iff)
  qed
  show "drop_bit 16 (m OR push_bit 16 n) = n"
  proof (rule bit_word_eqI)
    fix i
    show "bit (drop_bit 16 (m OR push_bit 16 n)) i = bit n i"
      using m [of "16 + i"] n [of i] by (cases "i < 16") (simp_all add: bit_drop_bit_eq bit_or_iff bit_push_bit_iff)
  qed
qed

lemma high_bits: "unat w < 2 ^ 16 \<Longrightarrow> 16 \<le> i \<Longrightarrow> \<not> bit w i" for w :: u32
proof -
  assume w: "unat w < 2 ^ 16" and i: "16 \<le> i"
  have "take_bit 16 (unat w) = unat w" using w by (rule take_bit_nat_eq_self)
  then have "\<not> bit (unat w) i" using i by (metis bit_take_bit_iff not_le)
  then show "\<not> bit w i" by (simp add: bit_unsigned_iff)
qed

lemma entry_word:
  assumes "n \<le> MaxNameSize"
  shows "(EntryMagic OR push_bit 16 (of_nat n)) AND 0xffff = EntryMagic"
    and "unat (drop_bit 16 (EntryMagic OR push_bit 16 (of_nat n) :: u32)) = n"
proof -
  have n: "n < 2 ^ 16" using assms by (simp add: MaxNameSize_def)
  then have u: "unat (of_nat n :: u32) = n" by (simp add: unat_of_nat take_bit_nat_eq_self)
  have m: "unat EntryMagic < 2 ^ 16" by (simp add: EntryMagic_def)
  note h = halves [OF high_bits [OF m] high_bits [of "of_nat n", unfolded u, OF n]]
  have mask: "(0xffff :: u32) = mask 16" by (simp add: mask_eq_exp_minus_1)
  show "(EntryMagic OR push_bit 16 (of_nat n)) AND 0xffff = EntryMagic" unfolding mask by (rule h(1))
  show "unat (drop_bit 16 (EntryMagic OR push_bit 16 (of_nat n) :: u32)) = n" by (simp only: h(2) u)
qed

lemma frame_fields:
  assumes "fits e"
  shows "get_le32 (frame e @ rest) AND 0xffff = EntryMagic" and "name_len (frame e @ rest) = length (fst e)"
    and "data_len (frame e @ rest) = length (snd e)"
proof -
  have n: "length (fst e) \<le> MaxNameSize" and d: "length (snd e) \<le> MaxDataSize" using assms by (simp_all add: fits_def)
  show "get_le32 (frame e @ rest) AND 0xffff = EntryMagic" "name_len (frame e @ rest) = length (fst e)"
    using entry_word [OF n] by (simp_all add: frame_def entry_header_def)
  have "length (snd e) < 2 ^ 32" using d by (simp add: MaxDataSize_def)
  then show "data_len (frame e @ rest) = length (snd e)"
    by (simp add: frame_def entry_header_def unat_of_nat take_bit_nat_eq_self)
qed

lemma length_frame: "length (frame e) = 8 + length (fst e) + length (snd e)"
  by (simp add: frame_def entry_header_def)

lemma frame_framed:
  assumes "fits e"
  shows "well_framed (frame e @ rest)" and "entry_end (frame e @ rest) = length (frame e)"
    and "entry_at offset (frame e @ rest) = hd (entries_from offset [e])"
proof -
  note f = frame_fields [OF assms, of rest]
  show "entry_end (frame e @ rest) = length (frame e)" unfolding entry_end_def f(2,3) by (simp add: length_frame)
  then show "well_framed (frame e @ rest)"
    using assms f(1) unfolding well_framed_def f(3) by (simp add: fits_def length_frame)
  have "take (length (fst e)) (drop 8 (frame e @ rest)) = fst e"
    "take (length (snd e)) (drop (8 + length (fst e)) (frame e @ rest)) = snd e"
    by (simp_all add: frame_def entry_header_def)
  then show "entry_at offset (frame e @ rest) = hd (entries_from offset [e])"
    unfolding entry_at_def f(2,3) by (cases e) simp
qed

lemma bytes_entries_package:
  assumes "\<forall>e \<in> set es. fits e" and "drop offset data = concat (map frame es)" and "offset \<le> length data"
    and "\<And>k. \<not> cancelled k" and "\<And>e. handle e = None"
  shows "bytes_entries handle cancelled k offset data = (entries_from offset es, None)"
  using assms(1-3)
proof (induction es arbitrary: k offset)
  case Nil
  then have "offset = length data" by simp
  moreover have "bytes_entry (length data) data = Stop None" by (simp add: bytes_entry_def)
  ultimately show ?case by (subst bytes_entries.simps) (simp add: assms(4))
next
  case (Cons e es)
  have d: "drop offset data = frame e @ concat (map frame es)" and e: "fits e" using Cons.prems by simp_all
  note f = frame_framed [OF e, where rest = "concat (map frame es)", folded d]
  have "bytes_entries handle cancelled (k + 1) (offset + length (frame e)) data
      = (entries_from (offset + length (frame e)) es, None)"
  proof (rule Cons.IH)
    show "drop (offset + length (frame e)) data = concat (map frame es)"
      using d by (metis append_eq_conv_conj drop_drop add.commute)
    show "offset + length (frame e) \<le> length data"
      using arg_cong [OF d, of length] Cons.prems(3) by simp
  qed (use Cons.prems(1) in simp)
  moreover have "bytes_entry offset data = Got (hd (entries_from offset [e])) ()"
    using bytes_entry_memory [OF Cons.prems(3)] f(1,3) by (auto simp: well_framed_def)
  moreover have "DataOffset (hd (entries_from offset [e])) + DataSize (hd (entries_from offset [e])) = offset + length (frame e)"
    by (cases e) (simp add: length_frame)
  ultimately show ?case
    by (subst bytes_entries.simps, cases e) (simp add: assms(4,5) add.assoc)
qed

text \<open>The appender: its offset is the end of the file.\<close>

definition at_end :: "appender \<Rightarrow> bool" where
  "at_end a \<longleftrightarrow> a_offset a = length (a_file a)"

lemma write_at_end [simp]: "write_at bs (length f) f = f @ bs"
  by (simp add: write_at_def)




lemma length_entry_header [simp]: "length (entry_header n d) = 8"
  by (simp add: entry_header_def)



text \<open>Writing a package from scratch.\<close>

definition append_all :: "(bytes \<times> bytes) list \<Rightarrow> appender \<Rightarrow> appender" where
  "append_all es a = foldl (\<lambda>a e. snd (Append Done Done Done True (fst e) (snd e) a)) a es"

lemma Append_done:
  assumes "at_end a" and "fits e"
  shows "Append Done Done Done True (fst e) (snd e) a
    = (Inr \<lparr>pp_Offset = a_offset a + 8 + length (fst e), pp_Size = length (snd e)\<rparr>,
       \<lparr>a_file = a_file a @ frame e, a_offset = a_offset a + length (frame e)\<rparr>)"
proof -
  have o: "a_offset a = length (a_file a)" using assms(1) by (simp add: at_end_def)
  have "write_at (snd e) (length (a_file a) + 8 + length (fst e)) (write_at (fst e) (length (a_file a) + 8)
      (a_file a @ entry_header (length (fst e)) (length (snd e)))) = a_file a @ frame e"
    using write_at_end [of "fst e" "a_file a @ entry_header (length (fst e)) (length (snd e))"]
      write_at_end [of "snd e" "(a_file a @ entry_header (length (fst e)) (length (snd e))) @ fst e"]
    by (simp add: frame_def add.assoc)
  then show ?thesis
    using assms(2) by (simp add: Append_def WriteAt_def fits_def o EntryHeaderSize_def length_frame Let_def add.assoc)
qed

lemma append_all_file:
  assumes "at_end a" and "\<forall>e \<in> set es. fits e"
  shows "a_file (append_all es a) = a_file a @ concat (map frame es)"
  using assms
proof (induction es arbitrary: a)
  case (Cons e es)
  then show ?case by (simp add: append_all_def Append_done at_end_def)
qed (simp add: append_all_def)

text \<open>A well framed entry is the frame of what it parses to.\<close>

lemma word_halves: "(w AND mask 16) OR push_bit 16 (drop_bit 16 w) = w" for w :: u32
proof (rule bit_word_eqI)
  fix i assume "i < LENGTH(32)"
  then show "bit ((w AND mask 16) OR push_bit 16 (drop_bit 16 w)) i = bit w i"
    by (cases "i < 16") (auto simp: bit_or_iff bit_and_iff bit_mask_iff bit_push_bit_iff bit_drop_bit_eq)
qed

lemma framed_frame:
  assumes "well_framed xs"
  shows "xs = frame (pe_Name (entry_at offset xs), pe_Data (entry_at offset xs)) @ drop (entry_end xs) xs"
    and "fits (pe_Name (entry_at offset xs), pe_Data (entry_at offset xs))"
proof -
  have wf: "8 \<le> length xs" "get_le32 xs AND 0xffff = EntryMagic" "data_len xs \<le> MaxDataSize" "entry_end xs \<le> length xs"
    using assms by (simp_all add: well_framed_def)
  let ?n = "take (name_len xs) (drop 8 xs)" and ?d = "take (data_len xs) (drop (8 + name_len xs) xs)"
  have len: "length ?n = name_len xs" "length ?d = data_len xs" using wf(1,4) by (auto simp: entry_end_def)
  have mask: "(0xffff :: u32) = mask 16" by (simp add: mask_eq_exp_minus_1)
  have "EntryMagic OR push_bit 16 (of_nat (name_len xs)) = get_le32 xs"
    using word_halves [of "get_le32 xs"] wf(2) unfolding mask by simp
  then have "entry_header (name_len xs) (data_len xs) = take 4 xs @ take 4 (drop 4 xs)"
    using wf(1) put_get_le32 [of xs] put_get_le32 [of "drop 4 xs"] unfolding entry_header_def by simp
  then have head: "entry_header (name_len xs) (data_len xs) = take 8 xs"
    using take_add [of 4 4 xs] by simp
  have "xs = take 8 xs @ ?n @ ?d @ drop (entry_end xs) xs"
    using append_take_drop_id [of 8 xs] append_take_drop_id [of "name_len xs" "drop 8 xs"]
      append_take_drop_id [of "data_len xs" "drop (8 + name_len xs) xs"]
    by (simp add: entry_end_def ac_simps)
  then show "xs = frame (pe_Name (entry_at offset xs), pe_Data (entry_at offset xs)) @ drop (entry_end xs) xs"
    by (simp add: frame_def entry_at_def len head del: length_take)
  have "name_len xs \<le> MaxNameSize"
    using unsigned_less [where 'a = nat and w = "get_le32 xs"] by (simp add: MaxNameSize_def drop_bit_eq_div unat_div)
  then show "fits (pe_Name (entry_at offset xs), pe_Data (entry_at offset xs))"
    using wf(3) by (simp add: fits_def entry_at_def len del: length_take)
qed

lemma bytes_entries_parse:
  assumes "bytes_entries (\<lambda>_. None) (\<lambda>_. False) k offset data = (es, None)" and "offset \<le> length data"
  shows "drop offset data = concat (map frame (map (\<lambda>e. (pe_Name e, pe_Data e)) es))
    \<and> (\<forall>e \<in> set es. fits (pe_Name e, pe_Data e))"
  using assms
proof (induction "length data - offset" arbitrary: k offset es rule: less_induct)
  case less
  let ?xs = "drop offset data" and ?o = "offset + entry_end (drop offset data)"
  obtain err where step: "bytes_entry offset data =
      (if ?xs = [] then Stop None else if well_framed ?xs then Got (entry_at offset ?xs) () else Stop (Some err))"
    using bytes_entry_memory [OF less.prems(2)] by blast
  have unfold: "bytes_entries (\<lambda>_. None) (\<lambda>_. False) k offset data = (case bytes_entry offset data of Stop err \<Rightarrow> ([], err)
      | Got e _ \<Rightarrow> apfst (Cons e) (bytes_entries (\<lambda>_. None) (\<lambda>_. False) (k + 1) (DataOffset e + DataSize e) data))"
    by (subst bytes_entries.simps) (simp split: step.split)
  show ?case
  proof (cases "?xs = []")
    case True
    then show ?thesis using less.prems(1) unfold step by simp
  next
    case False
    then have wf: "well_framed ?xs" using less.prems(1) unfold step by (auto split: if_splits)
    obtain es' where es': "bytes_entries (\<lambda>_. None) (\<lambda>_. False) (k + 1) ?o data = (es', None)" "es = entry_at offset ?xs # es'"
      using less.prems(1) False wf unfold step
      by (cases "bytes_entries (\<lambda>_. None) (\<lambda>_. False) (k + 1) ?o data") (auto simp: entry_at_end)
    have "?o \<le> length data" "offset < ?o" "offset < length data"
      using wf less.prems(2) False by (auto simp: well_framed_def entry_end_def)
    then have "drop ?o data = concat (map frame (map (\<lambda>e. (pe_Name e, pe_Data e)) es')) \<and> (\<forall>e \<in> set es'. fits (pe_Name e, pe_Data e))"
      using less.hyps [OF _ es'(1)] by simp
    then show ?thesis
      using framed_frame [OF wf, of offset] es'(2) by (simp add: add.commute)
  qed
qed

text \<open>
  C22. Packages round trip in both directions: what the appender writes to an empty file, for
  any entries within the size limits, \<open>ReadBytes\<close> returns with the offsets the appender used;
  and a package that \<open>ReadBytes\<close> accepts in full is byte for byte what the appender would write
  for its entries.
\<close>

theorem packfile_roundtrip:
  assumes "\<forall>e \<in> set es. fits e" and "NewAppender True True Done [] = Inr a"
  shows "ReadBytes (\<lambda>_. None) (\<lambda>_. False) (a_file (append_all es a)) = (entries_from HeaderSize es, None)
    \<and> (ReadBytes (\<lambda>_. None) (\<lambda>_. False) data = (entries, None) \<longrightarrow>
        data = a_file (append_all (map (\<lambda>e. (pe_Name e, pe_Data e)) entries) a))"
proof
  have a: "a = \<lparr>a_file = put_le32 PackageMagic, a_offset = 4\<rparr>"
    using assms(2) by (auto simp: NewAppender_def ensureWithSize_def WriteAt_def write_at_def HeaderSize_def)
  have "at_end a" by (simp add: a at_end_def)
  note filed = append_all_file [OF this]
  have written: "a_file (append_all es a) = put_le32 PackageMagic @ concat (map frame es)"
    using filed [OF assms(1)] by (simp add: a)
  have "get_le32 (take 4 (put_le32 PackageMagic @ x)) = PackageMagic" for x
    using get_put_le32 [of PackageMagic "[]"] by (simp add: get_le32_take)
  then have "ReadBytes (\<lambda>_. None) (\<lambda>_. False) (put_le32 PackageMagic @ concat (map frame es))
      = bytes_entries (\<lambda>_. None) (\<lambda>_. False) 0 4 (put_le32 PackageMagic @ concat (map frame es))"
    by (simp add: ReadBytes_def HeaderSize_def)
  also have "\<dots> = (entries_from 4 es, None)"
    using assms(1) by (intro bytes_entries_package) auto
  finally show "ReadBytes (\<lambda>_. None) (\<lambda>_. False) (a_file (append_all es a)) = (entries_from HeaderSize es, None)"
    unfolding written by (simp add: HeaderSize_def)
  show "ReadBytes (\<lambda>_. None) (\<lambda>_. False) data = (entries, None) \<longrightarrow>
      data = a_file (append_all (map (\<lambda>e. (pe_Name e, pe_Data e)) entries) a)"
  proof
    assume r: "ReadBytes (\<lambda>_. None) (\<lambda>_. False) data = (entries, None)"
    then have l: "4 \<le> length data" "get_le32 (take 4 data) = PackageMagic"
      and b: "bytes_entries (\<lambda>_. None) (\<lambda>_. False) 0 4 data = (entries, None)"
      by (auto simp: ReadBytes_def HeaderSize_def split: if_splits)
    note p = bytes_entries_parse [OF b l(1)]
    have "get_le32 data = PackageMagic" using l(2) get_le32_take [of 4 data] by simp
    then have "take 4 data = put_le32 PackageMagic" using put_get_le32 [OF l(1)] by simp
    then have "data = put_le32 PackageMagic @ drop 4 data" by (metis append_take_drop_id)
    then show "data = a_file (append_all (map (\<lambda>e. (pe_Name e, pe_Data e)) entries) a)"
      using p filed [of "map (\<lambda>e. (pe_Name e, pe_Data e)) entries"] by (simp add: a)
  qed
qed

theorem packfile_roundtrip_witness:
  "\<exists>a. NewAppender True True Done [] = Inr a
     \<and> ReadBytes (\<lambda>_. None) (\<lambda>_. False) (a_file (append_all [([7], [8, 9])] a)) = (entries_from HeaderSize [([7], [8, 9])], None)"
proof -
  have "\<forall>e \<in> set [([7 :: u8], [8, 9 :: u8])]. fits e" by (simp add: fits_def MaxNameSize_def MaxDataSize_def)
  moreover obtain a where "NewAppender True True Done [] = Inr a"
    by (auto simp: NewAppender_def ensureWithSize_def WriteAt_def)
  ultimately show ?thesis using packfile_roundtrip by blast
qed

end
