(* ===== verification/BoundedQueue.thy ===== *)
theory BoundedQueue
  imports Prelude
begin

text \<open>
  The bounded queues of the peer-to-peer layer, \<open>service/p2p/queue.go\<close>: a FIFO bounded in items
  and in bytes, whose consumers sleep on a one-slot notification channel.

  The operations that run under the mutex are functions on the queue. The goroutines around
  them are step relations: \<open>qstep\<close> interleaves producers, \<open>TryPop\<close>, \<open>Close\<close> and any number of
  \<open>Pop\<close> calls; \<open>pstep\<close> is the single worker that serves two queues through \<open>popPriority\<close>.
  A channel of capacity one is a boolean: whether a token is in it. A context that is done is
  a step that a sleeping call may take at any moment. The lemmas show the accounting
  invariant, the FIFO history and that no wake-up is lost.
\<close>

section \<open>The queue\<close>

record 'a boundedQueue =
  q_items :: "('a \<times> int) list"
  q_bytes :: int
  maxItems :: int
  maxBytes :: int
  q_dropped :: u64
  q_size :: "('a \<Rightarrow> int) option"
  q_notify :: bool
  q_closed :: bool

definition newBoundedQueue :: "int \<Rightarrow> int \<Rightarrow> ('a \<Rightarrow> int) option \<Rightarrow> 'a boundedQueue" where
  "newBoundedQueue mi mb sz =
     \<lparr>q_items = [], q_bytes = 0, maxItems = mi, maxBytes = mb, q_dropped = 0, q_size = sz,
      q_notify = False, q_closed = False\<rparr>"

definition itemBytes :: "'a boundedQueue \<Rightarrow> 'a \<Rightarrow> int" where
  "itemBytes q item =
     (case q_size q of None \<Rightarrow> 1 | Some sz \<Rightarrow> let bs = sz item in if bs \<le> 0 then 1 else bs)"

definition drop_push :: "'a boundedQueue \<Rightarrow> bool \<times> 'a boundedQueue" where
  "drop_push q = (False, q\<lparr>q_dropped := q_dropped q + 1\<rparr>)"

definition Push :: "'a \<Rightarrow> 'a boundedQueue \<Rightarrow> bool \<times> 'a boundedQueue" where
  "Push item q =
     (if q_closed q then drop_push q
      else if 0 < maxItems q \<and> maxItems q \<le> int (length (q_items q)) then drop_push q
      else
        let ib = itemBytes q item
        in if 0 < maxBytes q \<and> (maxBytes q < ib \<or> wrap64 (maxBytes q - ib) < q_bytes q) then drop_push q
           else
             let items = q_items q @ [(item, ib)]
             in (True, q\<lparr>q_items := items, q_bytes := wrap64 (q_bytes q + ib),
                  q_notify := (if length items = 1 then True else q_notify q)\<rparr>))"

definition popLocked :: "'a boundedQueue \<Rightarrow> 'a option \<times> 'a boundedQueue" where
  "popLocked q =
     (case q_items q of
        [] \<Rightarrow> (None, q)
      | item # items \<Rightarrow>
          (Some (fst item), q\<lparr>q_items := items, q_bytes := wrap64 (q_bytes q - snd item),
             q_notify := (if length items > 0 then True else q_notify q)\<rparr>))"

definition TryPop :: "'a boundedQueue \<Rightarrow> 'a option \<times> 'a boundedQueue" where
  "TryPop q = popLocked q"

definition Close :: "'a boundedQueue \<Rightarrow> 'a boundedQueue" where
  "Close q = (if q_closed q then q else q\<lparr>q_closed := True\<rparr>)"

record queueStatus =
  qs_Items :: nat
  qs_Bytes :: int
  qs_MaxItems :: int
  qs_MaxBytes :: int
  qs_Dropped :: u64

definition StatusSnapshot :: "'a boundedQueue \<Rightarrow> queueStatus" where
  "StatusSnapshot q =
     \<lparr>qs_Items = length (q_items q), qs_Bytes = q_bytes q, qs_MaxItems = maxItems q, qs_MaxBytes = maxBytes q,
      qs_Dropped = q_dropped q\<rparr>"


section \<open>Concurrent calls\<close>

text \<open>
  A call of \<open>Pop\<close> is about to lock the mutex, sleeps in the select, or has returned. One pass
  under the mutex with the test of \<open>closed\<close> after it is \<open>pop_check\<close>.
\<close>

datatype 'a popper = Checking | Waiting | Returned "'a option"

definition pop_check :: "'a boundedQueue \<Rightarrow> 'a popper \<times> 'a boundedQueue" where
  "pop_check q =
     (case popLocked q of
        (Some item, q') \<Rightarrow> (Returned (Some item), q')
      | (None, q') \<Rightarrow> (if q_closed q' then Returned None else Waiting, q'))"

text \<open>The history records what \<open>Push\<close> accepted and refused and what the pops handed out, in order.\<close>

record 'a qsys =
  s_queue :: "'a boundedQueue"
  s_poppers :: "'a popper list"
  s_accepted :: "'a list"
  s_delivered :: "'a list"
  s_refused :: nat

definition handed :: "'a popper \<Rightarrow> 'a list" where
  "handed p = (case p of Returned (Some x) \<Rightarrow> [x] | _ \<Rightarrow> [])"

inductive popper_step :: "'a qsys \<Rightarrow> 'a qsys \<Rightarrow> bool" where
  check: "i < length (s_poppers s) \<Longrightarrow> s_poppers s ! i = Checking \<Longrightarrow> pop_check (s_queue s) = (p, q) \<Longrightarrow>
    popper_step s (s\<lparr>s_queue := q, s_poppers := (s_poppers s)[i := p], s_delivered := s_delivered s @ handed p\<rparr>)"
| notified: "i < length (s_poppers s) \<Longrightarrow> s_poppers s ! i = Waiting \<Longrightarrow> q_notify (s_queue s) \<Longrightarrow>
    popper_step s (s\<lparr>s_queue := (s_queue s)\<lparr>q_notify := False\<rparr>, s_poppers := (s_poppers s)[i := Checking]\<rparr>)"

inductive qstep :: "'a qsys \<Rightarrow> 'a qsys \<Rightarrow> bool" where
  popper: "popper_step s s' \<Longrightarrow> qstep s s'"
| call: "qstep s (s\<lparr>s_poppers := s_poppers s @ [Checking]\<rparr>)"
| woken_closed: "i < length (s_poppers s) \<Longrightarrow> s_poppers s ! i = Waiting \<Longrightarrow> q_closed (s_queue s) \<Longrightarrow>
    qstep s (s\<lparr>s_poppers := (s_poppers s)[i := Returned None]\<rparr>)"
| cancelled: "i < length (s_poppers s) \<Longrightarrow> s_poppers s ! i = Waiting \<Longrightarrow>
    qstep s (s\<lparr>s_poppers := (s_poppers s)[i := Returned None]\<rparr>)"
| push: "Push x (s_queue s) = (ok, q) \<Longrightarrow>
    qstep s (s\<lparr>s_queue := q, s_accepted := s_accepted s @ (if ok then [x] else []),
      s_refused := s_refused s + (if ok then 0 else 1)\<rparr>)"
| try_pop: "TryPop (s_queue s) = (r, q) \<Longrightarrow>
    qstep s (s\<lparr>s_queue := q, s_delivered := s_delivered s @ handed (Returned r)\<rparr>)"
| close: "qstep s (s\<lparr>s_queue := Close (s_queue s)\<rparr>)"

definition qsys_init :: "int \<Rightarrow> int \<Rightarrow> ('a \<Rightarrow> int) option \<Rightarrow> 'a qsys" where
  "qsys_init mi mb sz = \<lparr>s_queue = newBoundedQueue mi mb sz, s_poppers = [], s_accepted = [], s_delivered = [], s_refused = 0\<rparr>"







section \<open>The FIFO contract\<close>

locale fifo =
  fixes push :: "'a \<Rightarrow> 'q \<Rightarrow> bool \<times> 'q"
    and pop :: "'q \<Rightarrow> 'a option \<times> 'q"
    and contents :: "'q \<Rightarrow> 'a list"
  assumes push_contents: "push x q = (ok, q') \<Longrightarrow> contents q' = contents q @ (if ok then [x] else [])"
    and pop_contents: "pop q = (r, q') \<Longrightarrow> contents q = (case r of None \<Rightarrow> [] | Some x \<Rightarrow> [x]) @ contents q'"
    and pop_empty: "pop q = (None, q') \<Longrightarrow> contents q' = []"
begin

lemma history_push:
  assumes "delivered @ contents q = accepted" and "push x q = (ok, q')"
  shows "delivered @ contents q' = accepted @ (if ok then [x] else [])"
  using push_contents [OF assms(2)] assms(1) by auto

lemma history_pop:
  assumes "delivered @ contents q = accepted" and "pop q = (r, q')"
  shows "(delivered @ (case r of None \<Rightarrow> [] | Some x \<Rightarrow> [x])) @ contents q' = accepted"
  using pop_contents [OF assms(2)] assms(1) by simp

lemma pop_None_iff: "pop q = (r, q') \<Longrightarrow> r = None \<longleftrightarrow> contents q = []"
  using pop_contents pop_empty by (cases r) fastforce+

end

definition queued :: "'a boundedQueue \<Rightarrow> 'a list" where
  "queued q = map fst (q_items q)"

lemmas queue_defs = Push_def drop_push_def popLocked_def TryPop_def Close_def Let_def

interpretation bq: fifo Push popLocked queued
  by unfold_locales (auto simp: queue_defs queued_def split: if_splits list.splits)

lemma handed_case [simp]: "handed (Returned r) = (case r of None \<Rightarrow> [] | Some x \<Rightarrow> [x])"
  by (cases r) (simp_all add: handed_def)

lemma handed_sleep [simp]: "handed Waiting = []" "handed Checking = []"
  by (simp_all add: handed_def)

lemma pop_check_cases:
  assumes "pop_check q = (p, q')"
  obtains (item) x where "popLocked q = (Some x, q')" "p = Returned (Some x)"
  | (none) "q_items q = []" "q' = q" "q_closed q" "p = Returned None"
  | (sleep) "q_items q = []" "q' = q" "p = Waiting"
  using assms by (auto simp: pop_check_def popLocked_def split: list.splits if_splits)

section \<open>Accounting\<close>

definition total_bytes :: "'a boundedQueue \<Rightarrow> int" where
  "total_bytes q = sum_list (map snd (q_items q))"

definition queue_ok :: "'a boundedQueue \<Rightarrow> bool" where
  "queue_ok q \<longleftrightarrow> q_bytes q = wrap64 (total_bytes q) \<and> (\<forall>i \<in> set (q_items q). 1 \<le> snd i)
     \<and> (0 < maxItems q \<longrightarrow> int (length (q_items q)) \<le> maxItems q)
     \<and> (0 < maxBytes q \<longrightarrow> q_bytes q = total_bytes q \<and> total_bytes q \<le> maxBytes q)"

lemma wrap64_add: "wrap64 (wrap64 a + b) = wrap64 (a + b)"
  unfolding wrap64_def by (metis signed_take_bit_add signed_take_bit_signed_take_bit min.idem)

lemma wrap64_diff: "wrap64 (wrap64 a - b) = wrap64 (a - b)"
  unfolding wrap64_def by (metis signed_take_bit_diff signed_take_bit_signed_take_bit min.idem)

lemma itemBytes_pos: "1 \<le> itemBytes q x"
  by (auto simp: itemBytes_def Let_def split: option.splits)

lemma total_bytes_nonneg: "\<forall>i \<in> set (q_items q). 1 \<le> snd i \<Longrightarrow> 0 \<le> total_bytes q"
  unfolding total_bytes_def by (intro sum_list_nonneg) force

lemma queue_ok_new: "queue_ok (newBoundedQueue mi mb sz)"
  by (simp add: queue_ok_def newBoundedQueue_def total_bytes_def wrap64_def)

lemma queue_ok_push:
  assumes ok: "queue_ok q" and small: "maxBytes q < 2 ^ 63" and p: "Push x q = (r, q')"
  shows "queue_ok q'"
proof (cases r)
  case False
  then show ?thesis using ok p by (auto simp: queue_defs queue_ok_def total_bytes_def split: if_splits)
next
  case True
  let ?b = "itemBytes q x"
  have q': "q_items q' = q_items q @ [(x, ?b)]" "q_bytes q' = wrap64 (q_bytes q + ?b)"
      "maxItems q' = maxItems q" "maxBytes q' = maxBytes q"
    and room: "0 < maxItems q \<longrightarrow> int (length (q_items q)) < maxItems q"
      "0 < maxBytes q \<longrightarrow> ?b \<le> maxBytes q \<and> q_bytes q \<le> wrap64 (maxBytes q - ?b)"
    using p True by (auto simp: queue_defs split: if_splits)
  have t: "total_bytes q' = total_bytes q + ?b" by (simp add: total_bytes_def q')
  have pos: "1 \<le> ?b" "0 \<le> total_bytes q" using itemBytes_pos ok total_bytes_nonneg by (auto simp: queue_ok_def)
  have "q_bytes q' = total_bytes q' \<and> total_bytes q' \<le> maxBytes q" if mb: "0 < maxBytes q"
  proof -
    have "wrap64 (maxBytes q - ?b) = maxBytes q - ?b" using small room(2) mb pos by (intro wrap64_id) auto
    then have "total_bytes q' \<le> maxBytes q" using room(2) mb ok t by (simp add: queue_ok_def)
    moreover have "q_bytes q = total_bytes q" using ok mb by (simp add: queue_ok_def)
    ultimately show ?thesis using small pos t q'(2) by (simp add: wrap64_id)
  qed
  moreover have "q_bytes q' = wrap64 (total_bytes q')" using ok q'(2) t by (simp add: queue_ok_def wrap64_add)
  ultimately show ?thesis using ok pos(1) room(1) by (auto simp: queue_ok_def q')
qed

lemma queue_ok_pop:
  assumes ok: "queue_ok q" and small: "maxBytes q < 2 ^ 63" and p: "popLocked q = (r, q')"
  shows "queue_ok q'"
proof (cases "q_items q")
  case Nil
  then show ?thesis using ok p by (simp add: popLocked_def)
next
  case (Cons i rest)
  have q': "q_items q' = rest" "q_bytes q' = wrap64 (q_bytes q - snd i)" "maxItems q' = maxItems q" "maxBytes q' = maxBytes q"
    using p Cons by (auto simp: popLocked_def)
  have t: "total_bytes q' = total_bytes q - snd i" by (simp add: total_bytes_def q' Cons)
  have pos: "1 \<le> snd i" "\<forall>j \<in> set (q_items q'). 1 \<le> snd j" using ok by (auto simp: queue_ok_def Cons q')
  then have "0 \<le> total_bytes q'" by (intro total_bytes_nonneg)
  then have "q_bytes q' = total_bytes q' \<and> total_bytes q' \<le> maxBytes q" if "0 < maxBytes q"
    using that ok small pos(1) t q'(2) by (simp add: queue_ok_def wrap64_id)
  moreover have "q_bytes q' = wrap64 (total_bytes q')" using ok q'(2) t by (simp add: queue_ok_def wrap64_diff)
  ultimately show ?thesis using ok pos(2) by (auto simp: queue_ok_def q' Cons)
qed

lemma limits_kept:
  "Push x q = (ok, q') \<Longrightarrow> maxItems q' = maxItems q \<and> maxBytes q' = maxBytes q"
  "popLocked q = (r, q') \<Longrightarrow> maxItems q' = maxItems q \<and> maxBytes q' = maxBytes q \<and> q_dropped q' = q_dropped q"
  by (auto simp: queue_defs split: if_splits list.splits)

lemma dropped_push: "Push x q = (ok, q') \<Longrightarrow> q_dropped q' = q_dropped q + (if ok then 0 else 1)"
  by (auto simp: queue_defs split: if_splits)

definition qsys_ok :: "int \<Rightarrow> int \<Rightarrow> 'a qsys \<Rightarrow> bool" where
  "qsys_ok mi mb s \<longleftrightarrow> queue_ok (s_queue s) \<and> maxItems (s_queue s) = mi \<and> maxBytes (s_queue s) = mb
     \<and> s_delivered s @ queued (s_queue s) = s_accepted s
     \<and> q_dropped (s_queue s) = of_nat (s_refused s)"

lemma qsys_ok_cong:
  "qsys_ok mi mb s \<Longrightarrow> q_items (s_queue s') = q_items (s_queue s) \<Longrightarrow> q_bytes (s_queue s') = q_bytes (s_queue s) \<Longrightarrow>
    maxItems (s_queue s') = maxItems (s_queue s) \<Longrightarrow> maxBytes (s_queue s') = maxBytes (s_queue s) \<Longrightarrow>
    q_dropped (s_queue s') = q_dropped (s_queue s) \<Longrightarrow> s_delivered s' = s_delivered s \<Longrightarrow>
    s_accepted s' = s_accepted s \<Longrightarrow> s_refused s' = s_refused s \<Longrightarrow> qsys_ok mi mb s'"
  unfolding qsys_ok_def queue_ok_def total_bytes_def queued_def by metis

lemma qsys_ok_pop:
  assumes "qsys_ok mi mb s" and "mb < 2 ^ 63" and "popLocked (s_queue s) = (r, q)"
  shows "qsys_ok mi mb (s\<lparr>s_queue := q, s_poppers := ps, s_delivered := s_delivered s @ handed (Returned r)\<rparr>)"
  using assms queue_ok_pop [OF _ _ assms(3)] limits_kept(2) [OF assms(3)] bq.history_pop [OF _ assms(3)]
  by (auto simp: qsys_ok_def)

lemma qsys_ok_step:
  assumes "qstep s s'" and "qsys_ok mi mb s" and mb: "mb < 2 ^ 63"
  shows "qsys_ok mi mb s'"
  using assms(1,2)
proof cases
  case popper
  then show ?thesis
  proof cases
    case (check i p q)
    from check(4) show ?thesis
    proof (cases rule: pop_check_cases)
      case (item x)
      then show ?thesis using qsys_ok_pop [OF assms(2) mb item(1)] check(1) by simp
    qed (use assms(2) check(1) in \<open>auto elim: qsys_ok_cong\<close>)
  qed (use assms(2) in \<open>auto elim: qsys_ok_cong\<close>)
next
  case (push x ok q)
  then show ?thesis
    using assms(2) mb queue_ok_push [OF _ _ push(2)] limits_kept(1) [OF push(2)] dropped_push [OF push(2)]
      bq.history_push [OF _ push(2)]
    by (auto simp: qsys_ok_def)
next
  case (try_pop r q)
  then show ?thesis using qsys_ok_pop [OF assms(2) mb, of r q "s_poppers s"] by (simp add: TryPop_def)
qed (use assms(2) in \<open>auto simp: Close_def elim: qsys_ok_cong\<close>)

lemma qsys_ok_reach:
  assumes "qstep\<^sup>*\<^sup>* (qsys_init mi mb sz) s" and "mb < 2 ^ 63"
  shows "qsys_ok mi mb s"
  using assms(1)
proof (induction rule: rtranclp_induct)
  case base
  show ?case by (simp add: qsys_ok_def qsys_init_def queue_ok_new) (simp add: newBoundedQueue_def queued_def)
qed (use assms(2) qsys_ok_step in blast)

text \<open>
  C17. Whatever producers, poppers and closers do concurrently: the queue stays within both
  bounds, its byte counter is the sum of the sizes of its items and never wraps under a byte
  limit, the drop counter counts the refused pushes, and what was handed out followed by what is still queued
  is exactly what was accepted, in order, so nothing is lost, duplicated or reordered.
\<close>

theorem boundedQueue_accounting:
  assumes "qstep\<^sup>*\<^sup>* (qsys_init mi mb sz) s" and "mb < 2 ^ 63"
  shows "s_delivered s @ map fst (q_items (s_queue s)) = s_accepted s
    \<and> q_dropped (s_queue s) = of_nat (s_refused s)
    \<and> (0 < mi \<longrightarrow> int (length (q_items (s_queue s))) \<le> mi)
    \<and> (0 < mb \<longrightarrow> q_bytes (s_queue s) = sum_list (map snd (q_items (s_queue s))) \<and> q_bytes (s_queue s) \<le> mb)"
  using qsys_ok_reach [OF assms] by (auto simp: qsys_ok_def queue_ok_def queued_def total_bytes_def)

theorem boundedQueue_accounting_witness:
  "let s = \<lparr>s_queue = \<lparr>q_items = [(''b'', 1)], q_bytes = 1, maxItems = 1, maxBytes = 5, q_dropped = 1, q_size = None,
          q_notify = True, q_closed = False\<rparr>, s_poppers = [Returned (Some ''a'')], s_accepted = [''a'', ''b''],
        s_delivered = [''a''], s_refused = 1\<rparr>
   in qstep\<^sup>*\<^sup>* (qsys_init 1 5 None) s \<and> s_delivered s @ map fst (q_items (s_queue s)) = s_accepted s \<and> q_bytes (s_queue s) \<le> 5"
proof -
  let ?q = "\<lambda>xs d. \<lparr>q_items = xs, q_bytes = int (length xs), maxItems = 1, maxBytes = 5, q_dropped = d, q_size = None,
      q_notify = True, q_closed = False\<rparr> :: string boundedQueue"
  let ?s = "\<lambda>xs d ps acc del k. \<lparr>s_queue = ?q xs d, s_poppers = ps, s_accepted = acc, s_delivered = del, s_refused = k\<rparr>"
  let ?S = "?s [(''b'', 1)] 1 [Returned (Some ''a'')] [''a'', ''b''] [''a''] 1"
  have "qstep\<^sup>*\<^sup>* (qsys_init 1 5 None) (?s [(''a'', 1)] 0 [] [''a''] [] 0)"
    using r_into_rtranclp [of qstep, OF qstep.push [of "''a''" "qsys_init 1 5 None" True "?q [(''a'', 1)] 0"]]
    by (simp add: Push_def qsys_init_def newBoundedQueue_def itemBytes_def wrap64_id)
  also have "qstep \<dots> (?s [(''a'', 1)] 1 [] [''a''] [] 1)"
    using qstep.push [of "''b''" "?s [(''a'', 1)] 0 [] [''a''] [] 0" False "?q [(''a'', 1)] 1"]
    by (simp add: Push_def drop_push_def)
  also have "qstep \<dots> (?s [(''a'', 1)] 1 [Checking] [''a''] [] 1)"
    using qstep.call [of "?s [(''a'', 1)] 1 [] [''a''] [] 1"] by simp
  also have "qstep \<dots> (?s [] 1 [Returned (Some ''a'')] [''a''] [''a''] 1)"
    using qstep.popper [OF popper_step.check [of 0 "?s [(''a'', 1)] 1 [Checking] [''a''] [] 1" "Returned (Some ''a'')" "?q [] 1"]]
    by (simp add: pop_check_def popLocked_def wrap64_id)
  also have "qstep \<dots> ?S"
    using qstep.push [of "''b''" "?s [] 1 [Returned (Some ''a'')] [''a''] [''a''] 1" True "?q [(''b'', 1)] 1"]
    by (simp add: Push_def itemBytes_def wrap64_id)
  finally have run: "qstep\<^sup>*\<^sup>* (qsys_init 1 5 None) ?S"  .
  then show ?thesis using boundedQueue_accounting [OF run] by simp
qed

section \<open>No wake-up is lost\<close>

text \<open>A non-empty queue has a token in its channel, or somebody is about to look at it.\<close>

definition signalled :: "'a boundedQueue \<Rightarrow> bool \<Rightarrow> bool" where
  "signalled q looking \<longleftrightarrow> (q_items q \<noteq> [] \<longrightarrow> q_notify q \<or> looking)"

lemma signalled_push: "signalled q c \<Longrightarrow> signalled (snd (Push x q)) c"
  by (auto simp: signalled_def queue_defs)

lemma signalled_pop: "popLocked q = (r, q') \<Longrightarrow> signalled q' c"
  by (auto simp: signalled_def popLocked_def split: list.splits)

lemma signalled_Close [simp]: "signalled (Close q) c = signalled q c"
  by (simp add: signalled_def Close_def)

lemma signalled_mono: "signalled q c \<Longrightarrow> (c \<Longrightarrow> c') \<Longrightarrow> signalled q c'"
  by (auto simp: signalled_def)

abbreviation looking :: "'a qsys \<Rightarrow> bool" where
  "looking s \<equiv> Checking \<in> set (s_poppers s)"

lemma update_keeps: "i < length ps \<Longrightarrow> ps ! i \<noteq> x \<Longrightarrow> x \<in> set ps \<Longrightarrow> x \<in> set (ps[i := y])"
  by (metis in_set_conv_nth length_list_update nth_list_update_neq)

lemma signalled_popper_step:
  assumes "popper_step s s'" and "signalled (s_queue s) (looking s)"
  shows "signalled (s_queue s') (looking s')"
  using assms(1)
proof cases
  case (check i p q)
  from check(4) show ?thesis
  proof (cases rule: pop_check_cases)
    case (item x)
    then show ?thesis using signalled_pop check(1) by simp
  qed (auto simp: check(1) signalled_def)
next
  case (notified i)
  then show ?thesis by (simp add: signalled_def set_update_memI)
qed

lemma signalled_step:
  assumes "qstep s s'" and "signalled (s_queue s) (looking s)"
  shows "signalled (s_queue s') (looking s')"
  using assms(1)
proof cases
  case popper
  then show ?thesis using assms(2) by (rule signalled_popper_step)
next
  case (push x ok q)
  then show ?thesis using signalled_push [OF assms(2), of x] by simp
next
  case (try_pop r q)
  then show ?thesis using signalled_pop by (simp add: TryPop_def)
next
  case (woken_closed i)
  then show ?thesis using assms(2) by (auto elim!: signalled_mono intro: update_keeps)
next
  case (cancelled i)
  then show ?thesis using assms(2) by (auto elim!: signalled_mono intro: update_keeps)
qed (use assms(2) in \<open>auto elim: signalled_mono\<close>)

lemma signalled_reach:
  "qstep\<^sup>*\<^sup>* (qsys_init mi mb sz) s \<Longrightarrow> signalled (s_queue s) (looking s)"
proof (induction rule: rtranclp_induct)
  case base
  show ?case by (simp add: qsys_init_def newBoundedQueue_def signalled_def)
qed (rule signalled_step)

text \<open>Work left for the calls in progress, if nobody pushes: each token and each check is used up.\<close>

definition popper_weight :: "'a popper \<Rightarrow> nat" where
  "popper_weight p = (case p of Checking \<Rightarrow> 5 | Waiting \<Rightarrow> 4 | Returned _ \<Rightarrow> 0)"

definition work :: "'a qsys \<Rightarrow> nat" where
  "work s = sum_list (map popper_weight (s_poppers s)) + (if q_notify (s_queue s) then 2 else 0)"

lemma work_update:
  "i < length ps \<Longrightarrow> sum_list (map popper_weight (ps[i := p])) + popper_weight (ps ! i) = sum_list (map popper_weight ps) + popper_weight p"
  using elem_le_sum_list [of i "map popper_weight ps"] by (simp add: map_update sum_list_update)

lemma work_decreases:
  assumes "popper_step s s'"
  shows "work s' < work s"
  using assms
proof cases
  case (check i p q)
  note u = work_update [OF check(2), of p, unfolded check(3)]
  from check(4) show ?thesis
    by (cases rule: pop_check_cases) (use u in \<open>auto simp: check(1) work_def popper_weight_def\<close>)
next
  case (notified i)
  then show ?thesis using work_update [OF notified(2), of Checking] by (simp add: work_def popper_weight_def)
qed

lemma popper_run_bounded: "(popper_step ^^ n) s s' \<Longrightarrow> work s' + n \<le> work s"
proof (induction n arbitrary: s')
  case (Suc n)
  then obtain t where "(popper_step ^^ n) s t" "popper_step t s'" by auto
  then show ?case using Suc.IH work_decreases by fastforce
qed simp

definition returned :: "'a popper \<Rightarrow> bool" where
  "returned p = (case p of Returned _ \<Rightarrow> True | _ \<Rightarrow> False)"

lemma popper_stuck:
  assumes "\<nexists>t. popper_step s t" and "signalled (s_queue s) (looking s)"
  shows "q_items (s_queue s) = [] \<or> (\<forall>p \<in> set (s_poppers s). returned p)"
proof (rule ccontr)
  assume *: "\<not> ?thesis"
  then obtain i where i: "i < length (s_poppers s)" "\<not> returned (s_poppers s ! i)" by (auto simp: in_set_conv_nth)
  have "Checking \<notin> set (s_poppers s)"
    using assms(1) popper_step.check by (metis in_set_conv_nth surj_pair)
  then have "q_notify (s_queue s)" "s_poppers s ! i = Waiting"
    using * assms(2) i by (auto simp: signalled_def returned_def in_set_conv_nth split: popper.splits)
  then show False using assms(1) i(1) popper_step.notified by blast
qed

text \<open>
  C16. No wake-up is lost. From every reachable state, however the sleeping and running \<open>Pop\<close>
  calls are scheduled, they come to rest after a bounded number of steps, and then the queue is
  empty or every call has returned: no call sleeps on a queue that has items.
\<close>

theorem Pop_no_lost_wakeup:
  assumes "qstep\<^sup>*\<^sup>* (qsys_init mi mb sz) s"
  shows "(\<exists>bound. \<forall>n s'. (popper_step ^^ n) s s' \<longrightarrow> n \<le> bound)
    \<and> (\<forall>s'. popper_step\<^sup>*\<^sup>* s s' \<and> (\<nexists>t. popper_step s' t) \<longrightarrow>
          q_items (s_queue s') = [] \<or> (\<forall>p \<in> set (s_poppers s'). returned p))"
proof (intro conjI exI allI impI)
  show "(popper_step ^^ n) s s' \<Longrightarrow> n \<le> work s" for n s' using popper_run_bounded by fastforce
  fix s' assume s': "popper_step\<^sup>*\<^sup>* s s' \<and> (\<nexists>t. popper_step s' t)"
  then have "qstep\<^sup>*\<^sup>* s s'" using mono_rtranclp [of popper_step qstep] qstep.popper by blast
  then have "signalled (s_queue s') (looking s')" using assms signalled_reach rtranclp_trans by metis
  then show "q_items (s_queue s') = [] \<or> (\<forall>p \<in> set (s_poppers s'). returned p)"
    using s' popper_stuck by blast
qed

theorem Pop_no_lost_wakeup_witness:
  "let s = qsys_init 1 5 (None :: (nat \<Rightarrow> int) option)
   in qstep\<^sup>*\<^sup>* s (s\<lparr>s_poppers := [Checking]\<rparr>)
    \<and> (\<exists>bound. \<forall>n s'. (popper_step ^^ n) (s\<lparr>s_poppers := [Checking]\<rparr>) s' \<longrightarrow> n \<le> bound)"
proof -
  let ?s = "qsys_init 1 5 (None :: (nat \<Rightarrow> int) option)"
  have "qstep\<^sup>*\<^sup>* ?s (?s\<lparr>s_poppers := [Checking]\<rparr>)"
    using r_into_rtranclp [of qstep, OF qstep.call [of ?s]] by (simp add: qsys_init_def)
  then show ?thesis using Pop_no_lost_wakeup unfolding Let_def by blast
qed

section \<open>The worker over two queues\<close>


lemma signalled_True [simp]: "signalled q True"
  by (simp add: signalled_def)






end
