(* ===== verification/LinkedMap.thy ===== *)
theory LinkedMap
  imports Prelude
begin

text \<open>
  The pattern of a Go map of pointers kept beside a \<open>container/list\<close>: entries live on a heap,
  the map takes a key to the address of its entry, the list holds the addresses in order. An
  entry's list element is identified with its address in the list.

  The event cache (\<open>EventDedupe\<close>) and the address limiter (\<open>AddressLimiter\<close>) are built on it. The
  locale \<open>entry_list\<close> states what they rely on: up to the abstraction \<open>lk_abs\<close> the structure is a
  list of keyed entries with distinct keys. The module also holds Go's saturating \<open>Time.Sub\<close>.
\<close>

definition time_Sub :: "gotime \<Rightarrow> gotime \<Rightarrow> duration" where
  "time_Sub a b = max (- (2 ^ 63)) (min (2 ^ 63 - 1) (a - b))"

lemma time_Sub_less:
  "- (2 ^ 63) < d \<Longrightarrow> d < 2 ^ 63 \<Longrightarrow> time_Sub a b < d \<longleftrightarrow> a - b < d"
  by (auto simp: time_Sub_def)

section \<open>The structure\<close>

record ('k, 'e) linked =
  lk_map :: "('k \<times> nat) list"
  lk_heap :: "('k \<times> 'e) list"
  lk_order :: "nat list"

definition lk_new :: "('k, 'e) linked" where
  "lk_new = \<lparr>lk_map = [], lk_heap = [], lk_order = []\<rparr>"

definition lk_find :: "'k \<Rightarrow> ('k, 'e) linked \<Rightarrow> nat option" where
  "lk_find k l = map_of (lk_map l) k"

abbreviation lk_entry :: "('k, 'e) linked \<Rightarrow> nat \<Rightarrow> 'e" where
  "lk_entry l a \<equiv> snd (lk_heap l ! a)"

definition lk_len :: "('k, 'e) linked \<Rightarrow> nat" where
  "lk_len l = length (lk_map l)"

text \<open>Allocating an entry: \<open>PushBack\<close> and the insertion into the map. The new address comes first.\<close>

definition lk_push :: "'k \<Rightarrow> 'e \<Rightarrow> ('k, 'e) linked \<Rightarrow> nat \<times> ('k, 'e) linked" where
  "lk_push k e l =
     (let a = length (lk_heap l)
      in (a, \<lparr>lk_map = map_put k a (lk_map l), lk_heap = lk_heap l @ [(k, e)], lk_order = lk_order l @ [a]\<rparr>))"

definition lk_set :: "nat \<Rightarrow> 'e \<Rightarrow> ('k, 'e) linked \<Rightarrow> ('k, 'e) linked" where
  "lk_set a e l = l\<lparr>lk_heap := (lk_heap l)[a := (fst (lk_heap l ! a), e)]\<rparr>"

definition lk_to_back :: "nat \<Rightarrow> ('k, 'e) linked \<Rightarrow> ('k, 'e) linked" where
  "lk_to_back a l = l\<lparr>lk_order := remove1 a (lk_order l) @ [a]\<rparr>"

definition lk_delete :: "nat \<Rightarrow> ('k, 'e) linked \<Rightarrow> ('k, 'e) linked" where
  "lk_delete a l = l\<lparr>lk_map := map_del (fst (lk_heap l ! a)) (lk_map l), lk_order := remove1 a (lk_order l)\<rparr>"

text \<open>The loop that removes entries from the front as long as they satisfy a test.\<close>

function lk_prune :: "('e \<Rightarrow> bool) \<Rightarrow> ('k, 'e) linked \<Rightarrow> ('k, 'e) linked" where
  "lk_prune expired l =
     (case lk_order l of
        [] \<Rightarrow> l
      | a # _ \<Rightarrow> if expired (lk_entry l a) then lk_prune expired (lk_delete a l) else l)"
  by pat_completeness auto
termination
  by (relation "measure (\<lambda>(_, l). length (lk_order l))") (auto simp: lk_delete_def)

declare lk_prune.simps [simp del]

section \<open>The abstraction\<close>

definition lk_abs :: "('k, 'e) linked \<Rightarrow> ('k \<times> 'e) list" where
  "lk_abs l = map (\<lambda>a. lk_heap l ! a) (lk_order l)"

definition lk_ok :: "('k, 'e) linked \<Rightarrow> bool" where
  "lk_ok l \<longleftrightarrow> keys_distinct (lk_map l) \<and> distinct (lk_order l) \<and> distinct (map fst (lk_abs l))
     \<and> set (lk_order l) = snd ` set (lk_map l)
     \<and> (\<forall>(k, a) \<in> set (lk_map l). a < length (lk_heap l) \<and> fst (lk_heap l ! a) = k)"

lemma map_of_reset: "map_of (map (\<lambda>(k', e'). (k', if k' = k then e else e')) xs) = (if k \<in> fst ` set xs then (map_of xs)(k \<mapsto> e) else map_of xs)"
  by (induction xs) (auto simp: fun_eq_iff)

lemma map_of_drop_key: "map_of (filter (\<lambda>x. fst x \<noteq> k) xs) = (map_of xs)(k := None)"
  by (induction xs) (auto simp: fun_eq_iff)

lemma map_of_dropWhile:
  assumes "distinct (map fst xs)"
  shows "map_of (dropWhile P xs) k = map_of xs k \<or> map_of (dropWhile P xs) k = None \<and> (\<exists>e. map_of xs k = Some e \<and> P (k, e))"
  using assms
proof (induction xs)
  case (Cons x xs)
  have "map_of xs (fst x) = None" using Cons.prems by (simp add: map_of_eq_None_iff)
  then show ?case using Cons by (cases x) auto
qed simp

locale entry_list =
  fixes ok :: "'l \<Rightarrow> bool"
    and abs :: "'l \<Rightarrow> ('k \<times> 'e) list"
    and find_entry :: "'k \<Rightarrow> 'l \<Rightarrow> 'a option"
    and entry_of :: "'l \<Rightarrow> 'a \<Rightarrow> 'e"
    and len :: "'l \<Rightarrow> nat"
    and push :: "'k \<Rightarrow> 'e \<Rightarrow> 'l \<Rightarrow> 'a \<times> 'l"
    and put :: "'a \<Rightarrow> 'e \<Rightarrow> 'l \<Rightarrow> 'l"
    and to_back :: "'a \<Rightarrow> 'l \<Rightarrow> 'l"
    and remove :: "'a \<Rightarrow> 'l \<Rightarrow> 'l"
  assumes abs_distinct: "ok l \<Longrightarrow> distinct (map fst (abs l))"
    and len_abs: "ok l \<Longrightarrow> len l = length (abs l)"
    and find_none: "ok l \<Longrightarrow> find_entry k l = None \<longleftrightarrow> k \<notin> fst ` set (abs l)"
    and find_some: "ok l \<Longrightarrow> find_entry k l = Some a \<Longrightarrow> (k, entry_of l a) \<in> set (abs l)"
    and push_abs: "ok l \<Longrightarrow> find_entry k l = None \<Longrightarrow> push k e l = (a, l') \<Longrightarrow>
      ok l' \<and> abs l' = abs l @ [(k, e)] \<and> find_entry k l' = Some a \<and> entry_of l' a = e"
    and put_abs: "ok l \<Longrightarrow> find_entry k l = Some a \<Longrightarrow>
      ok (put a e l) \<and> abs (put a e l) = map (\<lambda>(k', e'). (k', if k' = k then e else e')) (abs l)
      \<and> find_entry k (put a e l) = Some a \<and> entry_of (put a e l) a = e"
    and to_back_abs: "ok l \<Longrightarrow> find_entry k l = Some a \<Longrightarrow>
      ok (to_back a l) \<and> abs (to_back a l) = filter (\<lambda>x. fst x \<noteq> k) (abs l) @ [(k, entry_of l a)]
      \<and> find_entry k (to_back a l) = Some a \<and> entry_of (to_back a l) a = entry_of l a"
    and remove_abs: "ok l \<Longrightarrow> find_entry k l = Some a \<Longrightarrow>
      ok (remove a l) \<and> abs (remove a l) = filter (\<lambda>x. fst x \<noteq> k) (abs l)"
begin

lemma push_view:
  assumes "ok l" and "find_entry k l = None" and "push k e l = (a, l')"
  shows "map_of (abs l') = (map_of (abs l))(k \<mapsto> e)"
proof -
  have "map_of (abs l) k = None" using find_none [OF assms(1)] assms(2) by (metis map_of_eq_None_iff)
  then show ?thesis using push_abs [OF assms] by (auto simp: map_of_append fun_eq_iff map_add_def split: option.splits)
qed

lemma put_view: "ok l \<Longrightarrow> find_entry k l = Some a \<Longrightarrow> map_of (abs (put a e l)) = (map_of (abs l))(k \<mapsto> e)"
  using put_abs [of l k a e] find_none [of l k] by (simp add: map_of_reset)

lemma to_back_view:
  "ok l \<Longrightarrow> find_entry k l = Some a \<Longrightarrow> map_of (abs (to_back a l)) = (map_of (abs l))(k \<mapsto> entry_of l a)"
  using to_back_abs [of l k a] by (auto simp: map_of_append map_of_drop_key fun_eq_iff map_add_def split: option.splits)

lemma remove_view: "ok l \<Longrightarrow> find_entry k l = Some a \<Longrightarrow> map_of (abs (remove a l)) = (map_of (abs l))(k := None)"
  using remove_abs [of l k a] by (simp add: map_of_drop_key)

lemma find_map_of:
  assumes "ok l"
  shows "map_of (abs l) k = map_option (entry_of l) (find_entry k l)"
proof (cases "find_entry k l")
  case None
  then have "map_of (abs l) k = None" using find_none [OF assms] by (metis map_of_eq_None_iff)
  then show ?thesis using None by simp
next
  case (Some a)
  then show ?thesis using find_some [OF assms Some] abs_distinct [OF assms] by simp
qed

lemma refresh_abs:
  assumes "ok l" and "find_entry k l = Some a"
  shows "ok (to_back a (put a e l)) \<and> abs (to_back a (put a e l)) = filter (\<lambda>x. fst x \<noteq> k) (abs l) @ [(k, e)]
    \<and> find_entry k (to_back a (put a e l)) = Some a \<and> entry_of (to_back a (put a e l)) a = e"
proof -
  have "filter (\<lambda>x. fst x \<noteq> k) (map (\<lambda>(k', e'). (k', if k' = k then e else e')) xs) = filter (\<lambda>x. fst x \<noteq> k) xs"
    for xs :: "('k \<times> 'e) list"
    by (induction xs) auto
  then show ?thesis using put_abs [OF assms, of e] to_back_abs [of "put a e l" k a] by simp
qed

end

section \<open>Its laws\<close>

lemma map_address:
  assumes "lk_ok l"
  shows "lk_find k l = Some a \<longleftrightarrow> a \<in> set (lk_order l) \<and> fst (lk_heap l ! a) = k"
proof
  assume "lk_find k l = Some a"
  then have "(k, a) \<in> set (lk_map l)" by (auto simp: lk_find_def dest: map_of_SomeD)
  then show "a \<in> set (lk_order l) \<and> fst (lk_heap l ! a) = k" using assms by (force simp: lk_ok_def)
next
  assume a: "a \<in> set (lk_order l) \<and> fst (lk_heap l ! a) = k"
  then obtain k' where "(k', a) \<in> set (lk_map l)" using assms by (auto simp: lk_ok_def)
  then have "(k, a) \<in> set (lk_map l)" using assms a by (auto simp: lk_ok_def)
  then show "lk_find k l = Some a" using assms by (simp add: lk_ok_def lk_find_def)
qed

lemma lk_order_bound: "lk_ok l \<Longrightarrow> a \<in> set (lk_order l) \<Longrightarrow> a < length (lk_heap l)"
  by (force simp: lk_ok_def)

lemma lk_ok_new: "lk_ok lk_new"
  by (simp add: lk_ok_def lk_new_def lk_abs_def)

lemma lk_abs_new [simp]: "lk_abs lk_new = []"
  by (simp add: lk_abs_def lk_new_def)

text \<open>Sufficient for \<open>lk_ok\<close>: the map is determined by the order through \<open>map_address\<close>.\<close>

lemma lk_okI:
  assumes "keys_distinct (lk_map l)" and "distinct (lk_order l)" and "distinct (map fst (lk_abs l))"
    and "\<And>a. a \<in> set (lk_order l) \<Longrightarrow> a < length (lk_heap l)"
    and "\<And>k a. map_of (lk_map l) k = Some a \<longleftrightarrow> a \<in> set (lk_order l) \<and> fst (lk_heap l ! a) = k"
  shows "lk_ok l"
proof -
  have m: "(k, a) \<in> set (lk_map l) \<longleftrightarrow> a \<in> set (lk_order l) \<and> fst (lk_heap l ! a) = k" for k a
    using assms(1,5) by (metis map_of_eq_Some_iff)
  then have "set (lk_order l) = snd ` set (lk_map l)" by force
  then show ?thesis using assms(1-4) m by (auto simp: lk_ok_def)
qed

lemma lk_len_abs:
  assumes "lk_ok l"
  shows "lk_len l = length (lk_abs l)"
proof -
  have "inj_on snd (set (lk_map l))"
  proof (rule inj_onI)
    fix x y assume xy: "x \<in> set (lk_map l)" "y \<in> set (lk_map l)" "snd x = snd y"
    have "fst (lk_heap l ! snd z) = fst z" if "z \<in> set (lk_map l)" for z using assms that by (auto simp: lk_ok_def)
    from this [OF xy(1)] this [OF xy(2)] show "x = y" using xy(3) by (simp add: prod_eq_iff)
  qed
  then have "card (set (lk_map l)) = card (set (lk_order l))"
    using assms by (simp add: lk_ok_def card_image)
  moreover have "distinct (lk_map l)" "distinct (lk_order l)" using assms by (auto simp: lk_ok_def distinct_map)
  ultimately show ?thesis by (simp add: lk_len_def lk_abs_def distinct_card)
qed

lemma lk_find_none: "lk_ok l \<Longrightarrow> lk_find k l = None \<longleftrightarrow> k \<notin> fst ` set (lk_abs l)"
proof -
  assume "lk_ok l"
  moreover have "k \<in> fst ` set (lk_abs l) \<longleftrightarrow> (\<exists>a. a \<in> set (lk_order l) \<and> fst (lk_heap l ! a) = k)"
    by (auto simp: lk_abs_def)
  ultimately show ?thesis by (simp add: map_address [symmetric])
qed

lemma lk_abs_delete: "lk_ok l \<Longrightarrow> lk_find k l = Some a \<Longrightarrow> map (\<lambda>a. lk_heap l ! a) (remove1 a (lk_order l)) = filter (\<lambda>x. fst x \<noteq> k) (lk_abs l)"
proof -
  assume l: "lk_ok l" and a: "lk_find k l = Some a"
  have "\<forall>b \<in> set (lk_order l). (b = a) = (fst (lk_heap l ! b) = k)"
  proof
    fix b assume "b \<in> set (lk_order l)"
    then show "(b = a) = (fst (lk_heap l ! b) = k)" using map_address [OF l, of k b] a by auto
  qed
  then have "filter (\<lambda>b. a \<noteq> b) (lk_order l) = filter (\<lambda>b. fst (lk_heap l ! b) \<noteq> k) (lk_order l)"
    by (intro filter_cong) auto
  moreover have "remove1 a (lk_order l) = filter (\<lambda>b. a \<noteq> b) (lk_order l)"
    using l by (simp add: lk_ok_def distinct_remove1_removeAll removeAll_filter_not_eq)
  ultimately show ?thesis by (simp add: lk_abs_def filter_map comp_def)
qed

lemma lk_ok_delete:
  assumes "lk_ok l" and "lk_find k l = Some a"
  shows "lk_ok (lk_delete a l)" and "lk_abs (lk_delete a l) = filter (\<lambda>x. fst x \<noteq> k) (lk_abs l)"
proof -
  have k: "fst (lk_heap l ! a) = k" using map_address [OF assms(1)] assms(2) by blast
  show abs: "lk_abs (lk_delete a l) = filter (\<lambda>x. fst x \<noteq> k) (lk_abs l)"
    using lk_abs_delete [OF assms] by (simp add: lk_abs_def lk_delete_def)
  have d: "keys_distinct (lk_map l)" "distinct (lk_order l)" "distinct (map fst (lk_abs l))"
    using assms(1) by (simp_all add: lk_ok_def)
  show "lk_ok (lk_delete a l)"
  proof (rule lk_okI)
    show "distinct (map fst (lk_abs (lk_delete a l)))" unfolding abs using d(3) by (rule distinct_map_filter)
    show "b \<in> set (lk_order (lk_delete a l)) \<Longrightarrow> b < length (lk_heap (lk_delete a l))" for b
      using lk_order_bound [OF assms(1)] set_remove1_subset [of a "lk_order l"] by (auto simp: lk_delete_def)
    show "map_of (lk_map (lk_delete a l)) k' = Some b \<longleftrightarrow> b \<in> set (lk_order (lk_delete a l)) \<and> fst (lk_heap (lk_delete a l) ! b) = k'" for k' b
      using map_address [OF assms(1), of k' b] map_address [OF assms(1), of k b] assms(2) k d(2)
      by (auto simp: lk_delete_def lk_find_def)
  qed (use d in \<open>simp_all add: lk_delete_def\<close>)
qed

lemma lk_ok_push:
  assumes "lk_ok l" and "lk_find k l = None" and "lk_push k e l = (a, l')"
  shows "lk_ok l'" and "lk_abs l' = lk_abs l @ [(k, e)]"
proof -
  have l': "l' = \<lparr>lk_map = map_put k a (lk_map l), lk_heap = lk_heap l @ [(k, e)], lk_order = lk_order l @ [a]\<rparr>"
    and a: "a = length (lk_heap l)" using assms(3) by (auto simp: lk_push_def Let_def)
  have low: "b < a" if "b \<in> set (lk_order l)" for b using lk_order_bound [OF assms(1) that] a by simp
  then have old: "map (\<lambda>b. (lk_heap l @ [(k, e)]) ! b) (lk_order l) = lk_abs l"
    by (auto simp: lk_abs_def nth_append a)
  show abs: "lk_abs l' = lk_abs l @ [(k, e)]"
    using old by (simp add: lk_abs_def l' a)
  have d: "keys_distinct (lk_map l)" "distinct (lk_order l)" "distinct (map fst (lk_abs l))"
    using assms(1) by (simp_all add: lk_ok_def)
  show "lk_ok l'"
  proof (rule lk_okI)
    show "distinct (map fst (lk_abs l'))" using d(3) lk_find_none [OF assms(1), of k] assms(2) by (simp add: abs)
    show "b \<in> set (lk_order l') \<Longrightarrow> b < length (lk_heap l')" for b using low by (auto simp: l' a less_Suc_eq)
    show "map_of (lk_map l') k' = Some b \<longleftrightarrow> b \<in> set (lk_order l') \<and> fst (lk_heap l' ! b) = k'" for k' b
      using map_address [OF assms(1), of k' b] assms(2) low [of b]
      by (auto simp: l' a lk_find_def nth_append)
  qed (use d low in \<open>auto simp: l'\<close>)
qed

lemma lk_ok_set:
  assumes "lk_ok l" and "lk_find k l = Some a"
  shows "lk_ok (lk_set a e l)" and "lk_abs (lk_set a e l) = map (\<lambda>(k', e'). (k', if k' = k then e else e')) (lk_abs l)"
proof -
  have a: "a \<in> set (lk_order l)" "fst (lk_heap l ! a) = k" "a < length (lk_heap l)"
    using map_address [OF assms(1)] assms(2) lk_order_bound [OF assms(1)] by auto
  have "fst (lk_heap l ! b) = k \<longleftrightarrow> b = a" if "b \<in> set (lk_order l)" for b
    using map_address [OF assms(1), of k b] assms(2) that by auto
  then show abs: "lk_abs (lk_set a e l) = map (\<lambda>(k', e'). (k', if k' = k then e else e')) (lk_abs l)"
    using a by (auto simp: lk_abs_def lk_set_def nth_list_update split_beta prod_eq_iff)
  have "map fst (lk_abs (lk_set a e l)) = map fst (lk_abs l)" unfolding abs by (simp add: split_beta)
  moreover have "fst ((lk_heap l)[a := (k, e)] ! b) = fst (lk_heap l ! b)" for b
    using a by (cases "b = a") auto
  ultimately show "lk_ok (lk_set a e l)"
    using assms(1) a by (intro lk_okI) (auto simp: lk_set_def map_address [OF assms(1), unfolded lk_find_def] lk_ok_def lk_order_bound)
qed

lemma lk_ok_to_back:
  assumes "lk_ok l" and "lk_find k l = Some a"
  shows "lk_ok (lk_to_back a l)" and "lk_abs (lk_to_back a l) = filter (\<lambda>x. fst x \<noteq> k) (lk_abs l) @ [(k, lk_entry l a)]"
proof -
  have a: "a \<in> set (lk_order l)" "fst (lk_heap l ! a) = k"
    using map_address [OF assms(1)] assms(2) by auto
  then have e: "lk_heap l ! a = (k, lk_entry l a)" by (cases "lk_heap l ! a") simp
  show abs: "lk_abs (lk_to_back a l) = filter (\<lambda>x. fst x \<noteq> k) (lk_abs l) @ [(k, lk_entry l a)]"
    using lk_abs_delete [OF assms] e by (simp add: lk_abs_def lk_to_back_def)
  have d: "keys_distinct (lk_map l)" "distinct (lk_order l)" "distinct (map fst (lk_abs l))"
    using assms(1) by (simp_all add: lk_ok_def)
  have o: "set (lk_order (lk_to_back a l)) = set (lk_order l)"
    using a(1) d(2) by (auto simp: lk_to_back_def)
  show "lk_ok (lk_to_back a l)"
  proof (rule lk_okI)
    show "distinct (map fst (lk_abs (lk_to_back a l)))" using d(3) by (auto simp: abs distinct_map_filter)
  qed (use d o lk_order_bound [OF assms(1)] map_address [OF assms(1), unfolded lk_find_def] in \<open>auto simp: lk_to_back_def\<close>)
qed

interpretation lk: entry_list lk_ok lk_abs lk_find lk_entry lk_len lk_push lk_set lk_to_back lk_delete
proof unfold_locales
  fix l :: "('k, 'e) linked" and k e a l'
  assume l: "lk_ok l"
  show "distinct (map fst (lk_abs l))" using l by (simp add: lk_ok_def)
  show "lk_len l = length (lk_abs l)" using l by (rule lk_len_abs)
  show "(lk_find k l = None) = (k \<notin> fst ` set (lk_abs l))" using l by (rule lk_find_none)
  {
    assume n: "lk_find k l = None" and p: "lk_push k e l = (a, l')"
    show "lk_ok l' \<and> lk_abs l' = lk_abs l @ [(k, e)] \<and> lk_find k l' = Some a \<and> lk_entry l' a = e"
      using lk_ok_push [OF l n p] p by (auto simp: lk_push_def lk_find_def Let_def)
  }
  assume s: "lk_find k l = Some a"
  then have a: "a \<in> set (lk_order l)" "fst (lk_heap l ! a) = k" "a < length (lk_heap l)"
    using map_address [OF l] lk_order_bound [OF l] by auto
  show "(k, lk_entry l a) \<in> set (lk_abs l)" using a by (cases "lk_heap l ! a") (auto simp: lk_abs_def rev_image_eqI)
  show "lk_ok (lk_set a e l) \<and> lk_abs (lk_set a e l) = map (\<lambda>(k', e'). (k', if k' = k then e else e')) (lk_abs l)
      \<and> lk_find k (lk_set a e l) = Some a \<and> lk_entry (lk_set a e l) a = e"
    using lk_ok_set [OF l s, of e] a s by (simp add: lk_set_def lk_find_def)
  show "lk_ok (lk_to_back a l) \<and> lk_abs (lk_to_back a l) = filter (\<lambda>x. fst x \<noteq> k) (lk_abs l) @ [(k, lk_entry l a)]
      \<and> lk_find k (lk_to_back a l) = Some a \<and> lk_entry (lk_to_back a l) a = lk_entry l a"
    using lk_ok_to_back [OF l s] s by (simp add: lk_to_back_def lk_find_def)
  show "lk_ok (lk_delete a l) \<and> lk_abs (lk_delete a l) = filter (\<lambda>x. fst x \<noteq> k) (lk_abs l)"
    using lk_ok_delete [OF l s] by simp
qed

lemma lk_front:
  assumes "lk_ok l" and "lk_order l = a # rest"
  shows "lk_find (fst (lk_heap l ! a)) l = Some a" and "lk_abs l = (fst (lk_heap l ! a), lk_entry l a) # map (\<lambda>a. lk_heap l ! a) rest"
    and "lk_abs (lk_delete a l) = tl (lk_abs l)" and "lk_ok (lk_delete a l)"
proof -
  show f: "lk_find (fst (lk_heap l ! a)) l = Some a" using map_address [OF assms(1)] assms(2) by simp
  show "lk_abs l = (fst (lk_heap l ! a), lk_entry l a) # map (\<lambda>a. lk_heap l ! a) rest" using assms(2) by (simp add: lk_abs_def)
  show "lk_abs (lk_delete a l) = tl (lk_abs l)" using assms(2) by (simp add: lk_abs_def lk_delete_def)
  show "lk_ok (lk_delete a l)" using lk_ok_delete(1) [OF assms(1) f] .
qed

lemma lk_prune_abs:
  assumes "lk_ok l"
  shows "lk_ok (lk_prune expired l) \<and> lk_abs (lk_prune expired l) = dropWhile (\<lambda>x. expired (snd x)) (lk_abs l)"
  using assms
proof (induction expired l rule: lk_prune.induct)
  case (1 expired l)
  show ?case
  proof (cases "lk_order l")
    case Nil
    then show ?thesis using "1.prems" by (subst (1 2) lk_prune.simps) (simp add: lk_abs_def)
  next
    case (Cons a rest)
    note f = lk_front [OF "1.prems" Cons]
    show ?thesis
    proof (cases "expired (lk_entry l a)")
      case True
      then have "lk_prune expired l = lk_prune expired (lk_delete a l)" by (subst lk_prune.simps) (simp add: Cons)
      then show ?thesis using "1.IH" [OF Cons True f(4)] f(2,3) True by simp
    next
      case False
      then have "lk_prune expired l = l" by (subst lk_prune.simps) (simp add: Cons)
      then show ?thesis using "1.prems" f(2) False by simp
    qed
  qed
qed

end
