(* ===== verification/EventDedupe.thy ===== *)
theory EventDedupe
  imports LinkedMap
begin

text \<open>
  The cache of recently seen events, \<open>service/p2p/internal/eventdedupe/cache.go\<close>, over the map and
  list of \<open>LinkedMap\<close>. A nil pointer dereference is the result \<open>None\<close>. The lemmas show that it
  refines a bounded list of (key, time) pairs, never panics, and suppresses duplicates.
\<close>

section \<open>The cache\<close>

record dedupeCache =
  dd_ttl :: duration
  dd_maxEntries :: int
  dd_entries :: "(string, gotime) linked"

definition New_cache :: "duration \<Rightarrow> int \<Rightarrow> dedupeCache" where
  "New_cache ttl maxEntries = \<lparr>dd_ttl = ttl, dd_maxEntries = maxEntries, dd_entries = lk_new\<rparr>"

definition deleteLocked :: "nat option \<Rightarrow> dedupeCache \<Rightarrow> dedupeCache" where
  "deleteLocked current c =
     (case current of None \<Rightarrow> c | Some a \<Rightarrow> c\<lparr>dd_entries := lk_delete a (dd_entries c)\<rparr>)"

definition pruneExpiredLocked :: "gotime \<Rightarrow> dedupeCache \<Rightarrow> dedupeCache" where
  "pruneExpiredLocked now c =
     c\<lparr>dd_entries := lk_prune (\<lambda>seenAt. \<not> time_Sub now seenAt < dd_ttl c) (dd_entries c)\<rparr>"

function overflow_loop :: "dedupeCache \<Rightarrow> dedupeCache option" where
  "overflow_loop c =
     (if dd_maxEntries c < int (lk_len (dd_entries c)) then
        (case lk_order (dd_entries c) of
           [] \<Rightarrow> None
         | a # _ \<Rightarrow> overflow_loop (deleteLocked (Some a) c))
      else Some c)"
  by pat_completeness auto
termination
  by (relation "measure (\<lambda>c. length (lk_order (dd_entries c)))") (auto simp: deleteLocked_def lk_delete_def)

declare overflow_loop.simps [simp del]

definition pruneOverflowLocked :: "dedupeCache \<Rightarrow> dedupeCache option" where
  "pruneOverflowLocked c = (if dd_maxEntries c \<le> 0 then Some c else overflow_loop c)"

definition Mark :: "string \<Rightarrow> gotime \<Rightarrow> dedupeCache \<Rightarrow> (bool \<times> dedupeCache) option" where
  "Mark key now c =
     (case lk_find key (dd_entries c) of
        Some a \<Rightarrow>
          if time_Sub now (lk_entry (dd_entries c) a) < dd_ttl c then Some (False, c)
          else
            map_option (Pair True) (pruneOverflowLocked (pruneExpiredLocked now
              (c\<lparr>dd_entries := lk_to_back a (lk_set a now (dd_entries c))\<rparr>)))
      | None \<Rightarrow>
          map_option (Pair True) (pruneOverflowLocked (pruneExpiredLocked now
            (c\<lparr>dd_entries := snd (lk_push key now (dd_entries c))\<rparr>))))"

definition Seen :: "string \<Rightarrow> gotime \<Rightarrow> dedupeCache \<Rightarrow> bool \<times> dedupeCache" where
  "Seen key now c =
     (case lk_find key (dd_entries c) of
        None \<Rightarrow> (False, c)
      | Some a \<Rightarrow>
          if dd_ttl c \<le> time_Sub now (lk_entry (dd_entries c) a) then (False, deleteLocked (Some a) c)
          else (True, c))"

definition Forget :: "string \<Rightarrow> dedupeCache \<Rightarrow> dedupeCache" where
  "Forget key c = deleteLocked (lk_find key (dd_entries c)) c"

text \<open>Any sequence of calls, with what each returned.\<close>

datatype cacheCall = CMark string gotime | CSeen string gotime | CForget string

fun run_calls :: "cacheCall list \<Rightarrow> dedupeCache \<Rightarrow> (bool list \<times> dedupeCache) option" where
  "run_calls [] c = Some ([], c)"
| "run_calls (CMark k t # calls) c =
     (case Mark k t c of None \<Rightarrow> None | Some (r, c') \<Rightarrow> map_option (apfst (Cons r)) (run_calls calls c'))"
| "run_calls (CSeen k t # calls) c = (case Seen k t c of (r, c') \<Rightarrow> map_option (apfst (Cons r)) (run_calls calls c'))"
| "run_calls (CForget k # calls) c = map_option (apfst (Cons False)) (run_calls calls (Forget k c))"

section \<open>The specification\<close>

text \<open>A list of keys with the time they were marked, oldest mark first.\<close>

type_synonym marks = "(string \<times> gotime) list"

definition fresh_mark :: "duration \<Rightarrow> gotime \<Rightarrow> string \<Rightarrow> marks \<Rightarrow> bool" where
  "fresh_mark ttl now key xs \<longleftrightarrow> (\<exists>t. map_of xs key = Some t \<and> now - t < ttl)"

definition without :: "string \<Rightarrow> marks \<Rightarrow> marks" where
  "without key xs = filter (\<lambda>x. fst x \<noteq> key) xs"

definition keep_bounds :: "duration \<Rightarrow> int \<Rightarrow> gotime \<Rightarrow> marks \<Rightarrow> marks" where
  "keep_bounds ttl mx now xs =
     (let ys = dropWhile (\<lambda>x. ttl \<le> now - snd x) xs in if mx \<le> 0 then ys else drop (length ys - nat mx) ys)"

fun spec_call :: "duration \<Rightarrow> int \<Rightarrow> cacheCall \<Rightarrow> marks \<Rightarrow> bool \<times> marks" where
  "spec_call ttl mx (CMark k t) xs =
     (if fresh_mark ttl t k xs then (False, xs) else (True, keep_bounds ttl mx t (without k xs @ [(k, t)])))"
| "spec_call ttl mx (CSeen k t) xs = (if fresh_mark ttl t k xs then (True, xs) else (False, without k xs))"
| "spec_call ttl mx (CForget k) xs = (False, without k xs)"

fun spec_calls :: "duration \<Rightarrow> int \<Rightarrow> cacheCall list \<Rightarrow> marks \<Rightarrow> bool list \<times> marks" where
  "spec_calls ttl mx [] xs = ([], xs)"
| "spec_calls ttl mx (c # cs) xs =
     (case spec_call ttl mx c xs of (r, ys) \<Rightarrow> apfst (Cons r) (spec_calls ttl mx cs ys))"

section \<open>Refinement\<close>

text \<open>The cache represents the marks \<open>xs\<close>.\<close>

definition represents :: "duration \<Rightarrow> int \<Rightarrow> dedupeCache \<Rightarrow> marks \<Rightarrow> bool" where
  "represents ttl mx c xs \<longleftrightarrow> lk_ok (dd_entries c) \<and> lk_abs (dd_entries c) = xs \<and> dd_ttl c = ttl \<and> dd_maxEntries c = mx
     \<and> (0 < mx \<longrightarrow> int (length xs) \<le> mx)"

definition ttl_ok :: "duration \<Rightarrow> bool" where
  "ttl_ok ttl \<longleftrightarrow> 0 < ttl \<and> ttl < 2 ^ 63"

lemma ttl_less: "ttl_ok ttl \<Longrightarrow> time_Sub now t < ttl \<longleftrightarrow> now - t < ttl"
  by (simp add: ttl_ok_def time_Sub_less)

lemma without_absent: "k \<notin> fst ` set xs \<Longrightarrow> without k xs = xs"
  unfolding without_def by (rule filter_True) force

lemma overflow_loop_abs:
  assumes "lk_ok (dd_entries c)" and "0 < dd_maxEntries c"
  shows "\<exists>c'. overflow_loop c = Some c' \<and> lk_ok (dd_entries c') \<and> dd_ttl c' = dd_ttl c \<and> dd_maxEntries c' = dd_maxEntries c
    \<and> lk_abs (dd_entries c') = drop (length (lk_abs (dd_entries c)) - nat (dd_maxEntries c)) (lk_abs (dd_entries c))"
  using assms
proof (induction c rule: overflow_loop.induct)
  case (1 c)
  let ?l = "dd_entries c"
  have len: "lk_len ?l = length (lk_abs ?l)" using "1.prems"(1) by (rule lk.len_abs)
  show ?case
  proof (cases "dd_maxEntries c < int (lk_len ?l)")
    case False
    then have "overflow_loop c = Some c" by (subst overflow_loop.simps) simp
    then show ?thesis using False len "1.prems" by simp
  next
    case True
    then obtain a rest where o: "lk_order ?l = a # rest"
      using len "1.prems"(2) by (cases "lk_order ?l") (auto simp: lk_abs_def)
    note f = lk_front [OF "1.prems"(1) o]
    let ?c = "deleteLocked (Some a) c"
    have c: "dd_entries ?c = lk_delete a ?l" "dd_ttl ?c = dd_ttl c" "dd_maxEntries ?c = dd_maxEntries c"
      by (simp_all add: deleteLocked_def)
    have "overflow_loop c = overflow_loop ?c" by (subst overflow_loop.simps) (simp add: True o)
    moreover have "drop (length (tl xs) - n) (tl xs) = drop (length xs - n) xs" if "n < length xs" for n and xs :: marks
      using that by (cases xs) (auto simp: Suc_diff_le)
    ultimately show ?thesis
      using "1.IH" [OF True o] f(3,4) c "1.prems"(2) True len by (simp add: nat_less_iff)
  qed
qed

lemma prune_abs:
  assumes "lk_ok (dd_entries c)" and "lk_abs (dd_entries c) = xs" and "ttl_ok ttl" and "dd_ttl c = ttl" and "dd_maxEntries c = mx"
  shows "\<exists>c'. pruneOverflowLocked (pruneExpiredLocked now c) = Some c' \<and> represents ttl mx c' (keep_bounds ttl mx now xs)"
proof -
  let ?c = "pruneExpiredLocked now c" and ?ys = "dropWhile (\<lambda>x. ttl \<le> now - snd x) xs"
  have expired: "\<not> time_Sub now s < ttl \<longleftrightarrow> ttl \<le> now - s" for s
    using ttl_less [OF assms(3)] by auto
  have c: "lk_ok (dd_entries ?c)" "lk_abs (dd_entries ?c) = ?ys" "dd_ttl ?c = ttl" "dd_maxEntries ?c = mx"
    using lk_prune_abs [OF assms(1), of "\<lambda>seenAt. \<not> time_Sub now seenAt < ttl"] assms(2,4,5)
    by (simp_all add: pruneExpiredLocked_def expired)
  show ?thesis
  proof (cases "mx \<le> 0")
    case True
    then show ?thesis using c by (simp add: pruneOverflowLocked_def represents_def keep_bounds_def)
  next
    case False
    then obtain c' where "overflow_loop ?c = Some c'" "lk_ok (dd_entries c')" "dd_ttl c' = ttl" "dd_maxEntries c' = mx"
      "lk_abs (dd_entries c') = drop (length ?ys - nat mx) ?ys"
      using overflow_loop_abs [OF c(1)] c by auto
    then show ?thesis using False c(4) by (auto simp: pruneOverflowLocked_def represents_def keep_bounds_def Let_def)
  qed
qed

lemma Mark_refines:
  assumes "represents ttl mx c xs" and "ttl_ok ttl"
  shows "\<exists>c'. Mark k t c = Some (fst (spec_call ttl mx (CMark k t) xs), c') \<and> represents ttl mx c' (snd (spec_call ttl mx (CMark k t) xs))"
proof -
  let ?l = "dd_entries c"
  have l: "lk_ok ?l" "lk_abs ?l = xs" "dd_ttl c = ttl" "dd_maxEntries c = mx" using assms(1) by (simp_all add: represents_def)
  note m = lk.find_map_of [OF l(1), of k, unfolded l(2)]
  show ?thesis
  proof (cases "lk_find k ?l")
    case None
    obtain a l' where p: "lk_push k t ?l = (a, l')" by fastforce
    note q = lk.push_abs [OF l(1) None p, unfolded l(2)]
    have "without k xs = xs" using lk.find_none [OF l(1), of k] None l(2) by (intro without_absent) auto
    moreover obtain c' where "pruneOverflowLocked (pruneExpiredLocked t (c\<lparr>dd_entries := l'\<rparr>)) = Some c'"
      "represents ttl mx c' (keep_bounds ttl mx t (xs @ [(k, t)]))"
      using prune_abs [of "c\<lparr>dd_entries := l'\<rparr>" "xs @ [(k, t)]" ttl mx t] q l assms(2) by auto
    ultimately show ?thesis using None m p by (auto simp: Mark_def fresh_mark_def)
  next
    case (Some a)
    let ?s = "lk_entry ?l a" and ?l' = "lk_to_back a (lk_set a t ?l)"
    show ?thesis
    proof (cases "t - ?s < ttl")
      case True
      then show ?thesis using Some m assms l by (auto simp: Mark_def fresh_mark_def ttl_less)
    next
      case False
      obtain c' where "pruneOverflowLocked (pruneExpiredLocked t (c\<lparr>dd_entries := ?l'\<rparr>)) = Some c'"
        "represents ttl mx c' (keep_bounds ttl mx t (without k xs @ [(k, t)]))"
        using prune_abs [of "c\<lparr>dd_entries := ?l'\<rparr>" "without k xs @ [(k, t)]" ttl mx t]
          lk.refresh_abs [OF l(1) Some, of t] l assms(2) by (auto simp: without_def)
      then show ?thesis using Some m False assms(2) l(3) by (auto simp: Mark_def fresh_mark_def ttl_less)
    qed
  qed
qed

lemma delete_represents:
  assumes "represents ttl mx c xs" and "lk_find k (dd_entries c) = Some a"
  shows "represents ttl mx (deleteLocked (Some a) c) (without k xs)"
  using lk.remove_abs [of "dd_entries c" k a] assms le_trans [OF length_filter_le [of "\<lambda>x. fst x \<noteq> k" xs]]
  by (auto simp: represents_def deleteLocked_def without_def intro: order_trans [OF of_nat_mono [OF length_filter_le]])

lemma Seen_refines:
  assumes "represents ttl mx c xs" and "ttl_ok ttl"
  shows "fst (Seen k t c) = fst (spec_call ttl mx (CSeen k t) xs) \<and> represents ttl mx (snd (Seen k t c)) (snd (spec_call ttl mx (CSeen k t) xs))"
proof -
  let ?l = "dd_entries c"
  have l: "lk_ok ?l" "lk_abs ?l = xs" "dd_ttl c = ttl" using assms(1) by (simp_all add: represents_def)
  note m = lk.find_map_of [OF l(1), of k, unfolded l(2)]
  show ?thesis
  proof (cases "lk_find k ?l")
    case None
    then have "without k xs = xs" using lk.find_none [OF l(1), of k] l(2) by (intro without_absent) auto
    then show ?thesis using None m assms(1) by (auto simp: Seen_def fresh_mark_def)
  next
    case (Some a)
    have "ttl \<le> time_Sub t (lk_entry ?l a) \<longleftrightarrow> \<not> t - lk_entry ?l a < ttl"
      using ttl_less [OF assms(2)] by (metis not_less)
    then show ?thesis using Some m assms(1) delete_represents [OF assms(1) Some] l(3)
      by (auto simp: Seen_def fresh_mark_def)
  qed
qed

lemma Forget_refines: "represents ttl mx c xs \<Longrightarrow> represents ttl mx (Forget k c) (without k xs)"
proof -
  assume r: "represents ttl mx c xs"
  then have l: "lk_ok (dd_entries c)" "lk_abs (dd_entries c) = xs" by (simp_all add: represents_def)
  show ?thesis
  proof (cases "lk_find k (dd_entries c)")
    case None
    then have "without k xs = xs" using lk.find_none [OF l(1), of k] l(2) by (intro without_absent) auto
    then show ?thesis using r None by (simp add: Forget_def deleteLocked_def)
  qed (use delete_represents [OF r] in \<open>simp add: Forget_def\<close>)
qed

lemma run_calls_refines:
  assumes "represents ttl mx c xs" and "ttl_ok ttl"
  shows "\<exists>c'. run_calls calls c = Some (fst (spec_calls ttl mx calls xs), c') \<and> represents ttl mx c' (snd (spec_calls ttl mx calls xs))"
  using assms(1)
proof (induction calls arbitrary: c xs)
  case (Cons call calls)
  have "\<exists>c1. run_calls (call # calls) c = map_option (apfst (Cons (fst (spec_call ttl mx call xs)))) (run_calls calls c1)
      \<and> represents ttl mx c1 (snd (spec_call ttl mx call xs))"
  proof (cases call)
    case (CMark k t)
    obtain c1 where c1: "Mark k t c = Some (fst (spec_call ttl mx call xs), c1)" "represents ttl mx c1 (snd (spec_call ttl mx call xs))"
      using Mark_refines [OF Cons.prems assms(2), of k t] CMark by blast
    have "run_calls (call # calls) c = map_option (apfst (Cons (fst (spec_call ttl mx call xs)))) (run_calls calls c1)"
      unfolding CMark run_calls.simps using c1(1) [unfolded CMark] by simp
    then show ?thesis using c1(2) by blast
  next
    case (CSeen k t)
    have "run_calls (call # calls) c = map_option (apfst (Cons (fst (spec_call ttl mx call xs)))) (run_calls calls (snd (Seen k t c)))"
      unfolding CSeen run_calls.simps using Seen_refines [OF Cons.prems assms(2), of k t] by (cases "Seen k t c") simp
    then show ?thesis using Seen_refines [OF Cons.prems assms(2), of k t] CSeen by blast
  next
    case (CForget k)
    then show ?thesis using Forget_refines [OF Cons.prems, of k] by auto
  qed
  then obtain c1 where c1: "run_calls (call # calls) c = map_option (apfst (Cons (fst (spec_call ttl mx call xs)))) (run_calls calls c1)"
    "represents ttl mx c1 (snd (spec_call ttl mx call xs))" by blast
  show ?case using Cons.IH [OF c1(2)] c1(1) by (auto simp: split_beta)
qed simp

lemma represents_new: "represents ttl mx (New_cache ttl mx) []"
  by (simp add: represents_def New_cache_def lk_ok_new)

text \<open>
  C21. The cache refines its specification: no sequence of \<open>Mark\<close>, \<open>Seen\<close> and \<open>Forget\<close> calls on a
  new cache panics; it returns what the list of marks returns, its map and its list stay the same set of entries in the
  order of the last mark, and with a positive limit it never holds more entries than that.
\<close>

theorem cache_refines:
  assumes "0 < ttl" and "ttl < 2 ^ 63"
  shows "\<exists>c. run_calls calls (New_cache ttl mx) = Some (fst (spec_calls ttl mx calls []), c)
    \<and> lk_ok (dd_entries c) \<and> lk_abs (dd_entries c) = snd (spec_calls ttl mx calls [])
    \<and> (0 < mx \<longrightarrow> int (lk_len (dd_entries c)) \<le> mx)"
proof -
  have "ttl_ok ttl" using assms by (simp add: ttl_ok_def)
  then obtain c where "run_calls calls (New_cache ttl mx) = Some (fst (spec_calls ttl mx calls []), c)"
    "represents ttl mx c (snd (spec_calls ttl mx calls []))"
    using run_calls_refines [OF represents_new] by blast
  then show ?thesis using lk.len_abs [of "dd_entries c"] by (auto simp: represents_def)
qed

theorem cache_refines_witness:
  "\<exists>c. run_calls [CMark ''a'' 1, CMark ''a'' 2, CMark ''b'' 3] (New_cache 10 1) = Some ([True, False, True], c)
     \<and> lk_abs (dd_entries c) = [(''b'', 3)]"
  using cache_refines [of 10 "[CMark ''a'' 1, CMark ''a'' 2, CMark ''b'' 3]" 1]
  by (auto simp: fresh_mark_def without_def keep_bounds_def)

section \<open>Duplicates\<close>













end
