(* ===== verification/AddressLimiter.thy ===== *)
theory AddressLimiter
  imports LinkedMap
begin

text \<open>
  The limiter of external messages per address, \<open>internal/extmsg/address_limiter.go\<close>, over the
  map and list of \<open>LinkedMap\<close>. Counters are 16-bit words, the epoch is the \<open>int64\<close> quotient of
  \<open>UnixNano\<close>; dividing by an empty bucket is a panic, the result \<open>None\<close>. The lemmas bound what any
  sequence of calls with a monotone clock admits per address.
\<close>

section \<open>The limiter\<close>

record addressKey =
  ak_Workchain :: u32
  ak_Account :: h256

datatype limiterErr = ErrAddressRateLimited | ErrAddressLimiterFull

record addressLimitEntry =
  le_epoch :: int
  le_current :: u16
  le_prev :: u16
  le_seenAt :: gotime

record addressLimiter =
  al_limit :: u16
  al_window :: duration
  al_bucket :: duration
  al_maxEntries :: int
  al_entries :: "(addressKey, addressLimitEntry) linked"

text \<open>Integer division of Go truncates; \<open>UnixNano\<close> counts from 1970, \<open>gotime\<close> from the zero time.\<close>

definition go_quot :: "int \<Rightarrow> int \<Rightarrow> int" where
  "go_quot a b = sgn a * sgn b * (\<bar>a\<bar> div \<bar>b\<bar>)"

definition unix_epoch :: gotime where
  "unix_epoch = 62135596800 * 10 ^ 9"

definition unixNano :: "gotime \<Rightarrow> int" where
  "unixNano t = wrap64 (t - unix_epoch)"

definition NewAddressLimiter :: "int \<Rightarrow> duration \<Rightarrow> int \<Rightarrow> addressLimiter" where
  "NewAddressLimiter limit window maxEntries =
     \<lparr>al_limit = word_of_int limit, al_window = window, al_bucket = go_quot window 2, al_maxEntries = maxEntries,
      al_entries = lk_new\<rparr>"

definition NewDefaultAddressLimiter :: addressLimiter where
  "NewDefaultAddressLimiter = NewAddressLimiter 30 (10 * 10 ^ 9) (2 ^ 18)"

definition epoch :: "addressLimiter \<Rightarrow> gotime \<Rightarrow> int option" where
  "epoch l now = (if al_bucket l = 0 then None else Some (wrap64 (go_quot (unixNano now) (al_bucket l))))"

definition rotate_entry :: "int \<Rightarrow> addressLimitEntry \<Rightarrow> addressLimitEntry" where
  "rotate_entry ep e =
     (if ep = le_epoch e then e
      else if ep = wrap64 (le_epoch e + 1) then e\<lparr>le_prev := le_current e, le_current := 0, le_epoch := ep\<rparr>
      else if ep > wrap64 (le_epoch e + 1) then e\<lparr>le_prev := 0, le_current := 0, le_epoch := ep\<rparr>
      else e)"

definition rotateEntryLocked :: "nat \<Rightarrow> gotime \<Rightarrow> addressLimiter \<Rightarrow> addressLimiter option" where
  "rotateEntryLocked a now l =
     map_option (\<lambda>ep. l\<lparr>al_entries := lk_set a (rotate_entry ep (lk_entry (al_entries l) a)) (al_entries l)\<rparr>) (epoch l now)"

definition deleteEntryLocked :: "nat \<Rightarrow> addressLimiter \<Rightarrow> addressLimiter" where
  "deleteEntryLocked a l = l\<lparr>al_entries := lk_delete a (al_entries l)\<rparr>"

definition pruneExpired :: "gotime \<Rightarrow> addressLimiter \<Rightarrow> addressLimiter" where
  "pruneExpired now l =
     l\<lparr>al_entries := lk_prune (\<lambda>e. \<not> time_Sub now (le_seenAt e) < al_window l) (al_entries l)\<rparr>"

definition over_limit :: "addressLimiter \<Rightarrow> nat \<Rightarrow> bool" where
  "over_limit l a = (let e = lk_entry (al_entries l) a in al_limit l \<le> le_current e + le_prev e)"

definition Check_address :: "addressKey \<Rightarrow> gotime \<Rightarrow> addressLimiter \<Rightarrow> (limiterErr option \<times> addressLimiter) option" where
  "Check_address key now l0 =
     (let l = pruneExpired now l0
      in case lk_find key (al_entries l) of
           None \<Rightarrow> Some (if al_maxEntries l \<le> int (lk_len (al_entries l)) then Some ErrAddressLimiterFull else None, l)
         | Some a \<Rightarrow>
             map_option (\<lambda>l'. (if over_limit l' a then Some ErrAddressRateLimited else None, l')) (rotateEntryLocked a now l))"

text \<open>The tail of \<open>Add\<close>, once the entry exists and is rotated.\<close>

definition count_add :: "nat \<Rightarrow> gotime \<Rightarrow> addressLimiter \<Rightarrow> limiterErr option \<times> addressLimiter" where
  "count_add a now l =
     (if over_limit l a then (Some ErrAddressRateLimited, l)
      else
        let e = lk_entry (al_entries l) a
        in (None, l\<lparr>al_entries := lk_to_back a (lk_set a (e\<lparr>le_current := le_current e + 1, le_seenAt := now\<rparr>) (al_entries l))\<rparr>))"

definition Add_address :: "addressKey \<Rightarrow> gotime \<Rightarrow> addressLimiter \<Rightarrow> (limiterErr option \<times> addressLimiter) option" where
  "Add_address key now l0 =
     (let l = pruneExpired now l0
      in case lk_find key (al_entries l) of
           None \<Rightarrow>
             if al_maxEntries l \<le> int (lk_len (al_entries l)) then Some (Some ErrAddressLimiterFull, l)
             else
               (case epoch l now of
                  None \<Rightarrow> None
                | Some ep \<Rightarrow>
                    (case lk_push key \<lparr>le_epoch = ep, le_current = 0, le_prev = 0, le_seenAt = 0\<rparr> (al_entries l) of
                       (a, es) \<Rightarrow> Some (count_add a now (l\<lparr>al_entries := es\<rparr>))))
         | Some a \<Rightarrow> map_option (count_add a now) (rotateEntryLocked a now l))"

definition give_back :: "addressLimitEntry \<Rightarrow> addressLimitEntry" where
  "give_back e =
     (if le_current e > 0 then e\<lparr>le_current := le_current e - 1\<rparr>
      else if le_prev e > 0 then e\<lparr>le_prev := le_prev e - 1\<rparr>
      else e)"

definition Remove_address :: "addressKey \<Rightarrow> gotime \<Rightarrow> addressLimiter \<Rightarrow> addressLimiter option" where
  "Remove_address key now l =
     (case lk_find key (al_entries l) of
        None \<Rightarrow> Some l
      | Some a \<Rightarrow>
          (case rotateEntryLocked a now l of
             None \<Rightarrow> None
           | Some l1 \<Rightarrow>
               let e = give_back (lk_entry (al_entries l1) a);
                   l2 = l1\<lparr>al_entries := lk_set a e (al_entries l1)\<rparr>
               in Some (if le_current e = 0 \<and> le_prev e = 0 then deleteEntryLocked a l2 else l2)))"

section \<open>Call sequences\<close>

datatype limiterCall = LCheck addressKey gotime | LAdd addressKey gotime | LRemove addressKey gotime

primrec call_time :: "limiterCall \<Rightarrow> gotime" where
  "call_time (LCheck k t) = t"
| "call_time (LAdd k t) = t"
| "call_time (LRemove k t) = t"

text \<open>The log has an item for every admitted \<open>Add\<close> (\<open>True\<close>) and every \<open>Remove\<close> (\<open>False\<close>).\<close>

type_synonym limiterLog = "(bool \<times> addressKey \<times> gotime) list"

fun limiter_call :: "limiterCall \<Rightarrow> limiterLog \<times> addressLimiter \<Rightarrow> (limiterLog \<times> addressLimiter) option" where
  "limiter_call (LCheck k t) (lg, l) = map_option (\<lambda>(_, l'). (lg, l')) (Check_address k t l)"
| "limiter_call (LAdd k t) (lg, l) = map_option (\<lambda>(err, l'). (if err = None then lg @ [(True, k, t)] else lg, l')) (Add_address k t l)"
| "limiter_call (LRemove k t) (lg, l) = map_option (\<lambda>l'. (lg @ [(False, k, t)], l')) (Remove_address k t l)"

fun limiter_calls :: "limiterCall list \<Rightarrow> limiterLog \<times> addressLimiter \<Rightarrow> (limiterLog \<times> addressLimiter) option" where
  "limiter_calls [] s = Some s"
| "limiter_calls (c # cs) s = (case limiter_call c s of None \<Rightarrow> None | Some s' \<Rightarrow> limiter_calls cs s')"

text \<open>Admitted and removed messages of an address in the epoch \<open>f\<close> of buckets of length \<open>b\<close>.\<close>

definition slice_of :: "duration \<Rightarrow> gotime \<Rightarrow> int" where
  "slice_of b t = (t - unix_epoch) div b"

definition admitted :: "duration \<Rightarrow> limiterLog \<Rightarrow> addressKey \<Rightarrow> int \<Rightarrow> nat" where
  "admitted b lg k f = length (filter (\<lambda>(add, k', t). add \<and> k' = k \<and> slice_of b t = f) lg)"

definition removed :: "duration \<Rightarrow> limiterLog \<Rightarrow> addressKey \<Rightarrow> int \<Rightarrow> nat" where
  "removed b lg k f = length (filter (\<lambda>(add, k', t). \<not> add \<and> k' = k \<and> slice_of b t = f) lg)"

lemma logged:
  "admitted b (lg @ [(True, k, t)]) k' f = admitted b lg k' f + (if k' = k \<and> f = slice_of b t then 1 else 0)"
  "admitted b (lg @ [(False, k, t)]) k' f = admitted b lg k' f"
  "removed b (lg @ [(True, k, t)]) k' f = removed b lg k' f"
  "removed b (lg @ [(False, k, t)]) k' f = removed b lg k' f + (if k' = k \<and> f = slice_of b t then 1 else 0)"
  by (auto simp: admitted_def removed_def)

section \<open>One address\<close>

text \<open>
  \<open>A\<close> and \<open>R\<close> count what one address was admitted and gave back in each epoch. \<open>entry_fits\<close>: its
  counters cover the surplus of the two epochs they stand for; \<open>absent_fits\<close>: without an entry there is no
  surplus to remember.
\<close>

definition entry_fits :: "nat \<Rightarrow> (int \<Rightarrow> nat) \<Rightarrow> (int \<Rightarrow> nat) \<Rightarrow> addressLimitEntry \<Rightarrow> bool" where
  "entry_fits lim A R e \<longleftrightarrow>
     (let F = le_epoch e; c = unat (le_current e); p = unat (le_prev e)
      in c + p \<le> lim \<and> A F \<le> c + R F \<and> A (F - 1) + A F \<le> c + p + R (F - 1) + R F \<and> (\<forall>f > F. A f = 0))"

definition absent_fits :: "(int \<Rightarrow> nat) \<Rightarrow> (int \<Rightarrow> nat) \<Rightarrow> int \<Rightarrow> bool" where
  "absent_fits A R E \<longleftrightarrow> A E \<le> R E \<and> A (E - 1) + A E \<le> R (E - 1) + R E \<and> (\<forall>f > E. A f = 0)"

definition pairs_fit :: "nat \<Rightarrow> (int \<Rightarrow> nat) \<Rightarrow> (int \<Rightarrow> nat) \<Rightarrow> bool" where
  "pairs_fit lim A R \<longleftrightarrow> (\<forall>f. A f + A (f + 1) \<le> lim + R f + R (f + 1))"

lemma absent_later: "absent_fits A R E \<Longrightarrow> E \<le> E' \<Longrightarrow> absent_fits A R E'"
proof -
  assume a: "absent_fits A R E" "E \<le> E'"
  then have "E' = E \<or> E' = E + 1 \<or> E + 1 < E'" by auto
  then show ?thesis using a by (auto simp: absent_fits_def)
qed

lemma rotate_epoch:
  "le_epoch e \<le> E \<Longrightarrow> 0 \<le> le_epoch e \<Longrightarrow> E < 2 ^ 63 - 1 \<Longrightarrow> le_epoch (rotate_entry E e) = E"
  by (auto simp: rotate_entry_def wrap64_id)

lemma rotate_seen [simp]: "le_seenAt (rotate_entry E e) = le_seenAt e"
  by (simp add: rotate_entry_def)

lemma rotate_fits:
  assumes "entry_fits lim A R e" and "le_epoch e \<le> E" and "0 \<le> le_epoch e" and "E < 2 ^ 63 - 1"
  shows "entry_fits lim A R (rotate_entry E e)"
proof -
  have w: "wrap64 (le_epoch e + 1) = le_epoch e + 1" using assms(2-4) by (intro wrap64_id) auto
  consider "E = le_epoch e" | "E = le_epoch e + 1" | "le_epoch e + 1 < E" using assms(2) by linarith
  then show ?thesis
  proof cases
    case 2
    then show ?thesis using assms(1) by (auto simp: rotate_entry_def w entry_fits_def Let_def)
  next
    case 3
    then have "A E = 0" "A (E - 1) = 0" using assms(1) by (auto simp: entry_fits_def Let_def)
    then show ?thesis using 3 assms(1) by (auto simp: rotate_entry_def w entry_fits_def Let_def)
  qed (use assms(1) in \<open>simp add: rotate_entry_def\<close>)
qed

lemma entry_absent:
  assumes "entry_fits lim A R e" and "le_current e = 0" and "le_prev e = 0"
  shows "absent_fits A R (le_epoch e)"
  using assms by (simp add: entry_fits_def absent_fits_def Let_def)

lemma sum_no_wrap:
  fixes c p l :: u16
  assumes "unat c + unat p \<le> unat l"
  shows "unat (c + p) = unat c + unat p"
  using assms unsigned_less [where 'a = nat and w = l] by (simp add: unat_word_ariths)

lemma add_fits:
  assumes "entry_fits (unat lim) A R e" and "\<not> lim \<le> le_current e + le_prev e" and "E = le_epoch e" and "pairs_fit (unat lim) A R"
  shows "entry_fits (unat lim) (A(E := A E + 1)) R (e\<lparr>le_current := le_current e + 1, le_seenAt := now\<rparr>)"
    and "pairs_fit (unat lim) (A(E := A E + 1)) R"
proof -
  let ?c = "unat (le_current e)" and ?p = "unat (le_prev e)"
  have e: "?c + ?p \<le> unat lim" "A E \<le> ?c + R E" "A (E - 1) + A E \<le> ?c + ?p + R (E - 1) + R E" "\<forall>f > E. A f = 0"
    using assms(1) by (simp_all add: entry_fits_def Let_def assms(3))
  have room: "?c + ?p < unat lim" using assms(2) sum_no_wrap [OF e(1)] by (simp add: word_le_nat_alt)
  then have c: "unat (le_current e + 1) = ?c + 1"
    using unsigned_less [where 'a = nat and w = lim] by (simp add: unat_word_ariths)
  show "entry_fits (unat lim) (A(E := A E + 1)) R (e\<lparr>le_current := le_current e + 1, le_seenAt := now\<rparr>)"
    using e room by (auto simp: entry_fits_def Let_def c assms(3))
  show "pairs_fit (unat lim) (A(E := A E + 1)) R"
    unfolding pairs_fit_def
  proof
    fix f
    consider "f = E" | "f + 1 = E" | "f \<noteq> E" "f + 1 \<noteq> E" by blast
    then show "(A(E := A E + 1)) f + (A(E := A E + 1)) (f + 1) \<le> unat lim + R f + R (f + 1)"
    proof cases
      case 1
      then show ?thesis using e room by simp
    next
      case 2
      then have "f = E - 1" by simp
      then show ?thesis using e room by simp
    next
      case 3
      then show ?thesis using assms(4) by (simp add: pairs_fit_def)
    qed
  qed
qed

lemma give_back_fits:
  assumes "entry_fits lim A R e" and "E = le_epoch e"
  shows "entry_fits lim A (R(E := R E + 1)) (give_back e)"
proof -
  have dec: "unat (w - 1) = unat w - 1" if "0 < w" for w :: u16 using that by (metis unat_minus_one word_gt_0)
  consider (cur) "0 < le_current e" | (prev) "le_current e = 0" "0 < le_prev e" | (none) "le_current e = 0" "le_prev e = 0"
    by (metis word_gt_0)
  then show ?thesis
  proof cases
    case cur
    then have "0 < unat (le_current e)" by (simp add: unat_gt_0 word_gt_0)
    then show ?thesis using cur assms by (auto simp: give_back_def entry_fits_def Let_def dec)
  next
    case prev
    then have "0 < unat (le_prev e)" by (simp add: unat_gt_0 word_gt_0)
    then show ?thesis using prev assms by (auto simp: give_back_def entry_fits_def Let_def dec)
  next
    case none
    then show ?thesis using assms by (auto simp: give_back_def entry_fits_def Let_def)
  qed
qed

text \<open>
  What is known of one address at time \<open>now\<close>, given its entry: the epochs are not in the future, and an
  entry has seen every message it was admitted.
\<close>

definition key_ok :: "duration \<Rightarrow> nat \<Rightarrow> gotime \<Rightarrow> (int \<Rightarrow> nat) \<Rightarrow> (int \<Rightarrow> nat) \<Rightarrow> addressLimitEntry option \<Rightarrow> bool" where
  "key_ok b lim now A R eo \<longleftrightarrow>
     pairs_fit lim A R \<and> (\<forall>f > slice_of b now. A f = 0) \<and> (lim = 0 \<longrightarrow> (\<forall>f. A f = 0))
     \<and> (case eo of
          None \<Rightarrow> absent_fits A R (slice_of b now)
        | Some e \<Rightarrow> 0 \<le> le_epoch e \<and> le_epoch e \<le> slice_of b now \<and> entry_fits lim A R e
            \<and> (\<forall>f. A f \<noteq> 0 \<longrightarrow> f \<le> slice_of b (le_seenAt e)))"

lemma slice_mono: "0 < b \<Longrightarrow> s \<le> t \<Longrightarrow> slice_of b s \<le> slice_of b t"
  by (simp add: slice_of_def zdiv_mono1)

lemma key_later:
  assumes "key_ok b lim s A R eo" and "0 < b" and "s \<le> t"
  shows "key_ok b lim t A R eo"
  using assms slice_mono [OF assms(2,3)] absent_later
  by (cases eo) (auto simp: key_ok_def)

lemma key_pruned:
  assumes "key_ok b lim now A R (Some e)" and "0 < b" and "2 * b \<le> now - le_seenAt e"
  shows "key_ok b lim now A R None"
proof -
  have "slice_of b (le_seenAt e) + 2 = (le_seenAt e - unix_epoch + 2 * b) div b"
    using assms(2) by (simp add: slice_of_def)
  also have "\<dots> \<le> slice_of b now" unfolding slice_of_def using assms(2,3) by (intro zdiv_mono1) auto
  finally have "A (slice_of b now) = 0" "A (slice_of b now - 1) = 0" using assms(1) by (force simp: key_ok_def)+
  then show ?thesis using assms(1) by (auto simp: key_ok_def absent_fits_def)
qed

lemma key_rotated:
  assumes "key_ok b lim now A R (Some e)" and "slice_of b now < 2 ^ 63 - 1"
  shows "key_ok b lim now A R (Some (rotate_entry (slice_of b now) e))" and "le_epoch (rotate_entry (slice_of b now) e) = slice_of b now"
proof -
  have e: "0 \<le> le_epoch e" "le_epoch e \<le> slice_of b now" "entry_fits lim A R e" using assms(1) by (auto simp: key_ok_def)
  show r: "le_epoch (rotate_entry (slice_of b now) e) = slice_of b now" using e assms(2) by (intro rotate_epoch) auto
  show "key_ok b lim now A R (Some (rotate_entry (slice_of b now) e))"
    using assms e rotate_fits [OF e(3,2,1) assms(2)] r by (auto simp: key_ok_def)
qed

lemma key_added:
  assumes "key_ok b (unat lim) now A R eo" and "entry_fits (unat lim) A R e" and "le_epoch e = slice_of b now"
    and "\<not> lim \<le> le_current e + le_prev e" and "0 \<le> slice_of b now"
  shows "key_ok b (unat lim) now (A(slice_of b now := A (slice_of b now) + 1)) R
    (Some (e\<lparr>le_current := le_current e + 1, le_seenAt := now\<rparr>))"
proof -
  let ?A = "A(slice_of b now := A (slice_of b now) + 1)"
  have p: "pairs_fit (unat lim) A R" "\<forall>f > slice_of b now. A f = 0" using assms(1) by (auto simp: key_ok_def)
  have "0 < lim" using assms(4) by (metis word_gt_0 word_zero_le)
  then have "0 < unat lim" by (simp add: unat_gt_0 word_gt_0)
  moreover have "\<forall>f. ?A f \<noteq> 0 \<longrightarrow> f \<le> slice_of b now" "\<forall>f > slice_of b now. ?A f = 0"
    using p(2) by (auto intro: leI)
  ultimately show ?thesis
    using add_fits(1) [OF assms(2,4) assms(3) [symmetric] p(1), of now] add_fits(2) [OF assms(2,4) assms(3) [symmetric] p(1)] assms(3,5)
    unfolding key_ok_def by simp
qed

lemma pairs_mono:
  assumes "pairs_fit lim A R" and "\<And>g. R g \<le> R' g"
  shows "pairs_fit lim A R'"
  unfolding pairs_fit_def
proof
  fix f
  have "A f + A (f + 1) \<le> lim + R f + R (f + 1)" using assms(1) by (simp add: pairs_fit_def)
  then show "A f + A (f + 1) \<le> lim + R' f + R' (f + 1)" using assms(2) [of f] assms(2) [of "f + 1"] by linarith
qed

lemma key_given_back:
  assumes "key_ok b lim now A R (Some e)" and "le_epoch e = slice_of b now"
  shows "key_ok b lim now A (R(slice_of b now := R (slice_of b now) + 1)) (if le_current (give_back e) = 0 \<and> le_prev (give_back e) = 0 then None else Some (give_back e))"
proof -
  let ?E = "slice_of b now" and ?R = "R(slice_of b now := R (slice_of b now) + 1)"
  have g: "le_epoch (give_back e) = ?E" "le_seenAt (give_back e) = le_seenAt e" using assms(2) by (simp_all add: give_back_def)
  have f: "entry_fits lim A ?R (give_back e)"
    using assms(1) give_back_fits [OF _ assms(2) [symmetric]] by (auto simp: key_ok_def)
  have "pairs_fit lim A ?R"
    using assms(1) by (auto simp: key_ok_def intro: pairs_mono)
  then show ?thesis using assms(1,2) f g entry_absent [OF f] by (auto simp: key_ok_def)
qed

lemma key_remove_absent:
  assumes "key_ok b lim now A R None"
  shows "key_ok b lim now A (R(f := R f + 1)) None"
proof -
  have le: "R g \<le> (R(f := R f + 1)) g" for g by simp
  have "pairs_fit lim A (R(f := R f + 1))" using assms le by (auto simp: key_ok_def intro: pairs_mono)
  moreover have "absent_fits A (R(f := R f + 1)) (slice_of b now)"
    using assms le [of "slice_of b now"] le [of "slice_of b now - 1"] by (auto simp: key_ok_def absent_fits_def)
  ultimately show ?thesis using assms by (simp add: key_ok_def)
qed

lemma key_fresh:
  assumes "key_ok b lim now A R None" and "0 \<le> slice_of b now"
  shows "entry_fits lim A R \<lparr>le_epoch = slice_of b now, le_current = 0, le_prev = 0, le_seenAt = 0\<rparr>"
  using assms by (auto simp: key_ok_def absent_fits_def entry_fits_def)

section \<open>All addresses\<close>

definition config_ok :: "duration \<Rightarrow> bool" where
  "config_ok window \<longleftrightarrow> 4 \<le> window \<and> window < 2 ^ 63"

definition time_ok :: "gotime \<Rightarrow> bool" where
  "time_ok t \<longleftrightarrow> unix_epoch \<le> t \<and> t < unix_epoch + 2 ^ 63"

definition entry_of_key :: "addressLimiter \<Rightarrow> addressKey \<Rightarrow> addressLimitEntry option" where
  "entry_of_key l k = map_of (lk_abs (al_entries l)) k"

definition shape_ok :: "u16 \<Rightarrow> duration \<Rightarrow> addressLimiter \<Rightarrow> bool" where
  "shape_ok lim window l \<longleftrightarrow> al_limit l = lim \<and> al_window l = window \<and> al_bucket l = window div 2 \<and> lk_ok (al_entries l)"

definition limiter_ok :: "u16 \<Rightarrow> duration \<Rightarrow> gotime \<Rightarrow> limiterLog \<times> addressLimiter \<Rightarrow> bool" where
  "limiter_ok lim window now = (\<lambda>(lg, l). shape_ok lim window l
     \<and> (\<forall>k. key_ok (window div 2) (unat lim) now (admitted (window div 2) lg k) (removed (window div 2) lg k) (entry_of_key l k)))"

lemma bucket_pos: "config_ok window \<Longrightarrow> 2 \<le> window div 2" "config_ok window \<Longrightarrow> 0 < window div 2"
  using zdiv_mono1 [of 4 window 2] by (auto simp: config_ok_def)

lemma slice_range:
  assumes "config_ok window" and "time_ok t"
  shows "0 \<le> slice_of (window div 2) t" and "slice_of (window div 2) t < 2 ^ 63 - 1"
proof -
  have b: "2 \<le> window div 2" using assms(1) by (rule bucket_pos)
  have t: "0 \<le> t - unix_epoch" "t - unix_epoch < 2 ^ 63" using assms(2) by (auto simp: time_ok_def)
  show "0 \<le> slice_of (window div 2) t" using b t(1) by (simp add: slice_of_def pos_imp_zdiv_nonneg_iff)
  have "slice_of (window div 2) t \<le> (t - unix_epoch) div 2"
    unfolding slice_of_def using b t(1) by (intro zdiv_mono2) auto
  then show "slice_of (window div 2) t < 2 ^ 63 - 1" using t(2) by simp
qed

lemma epoch_slice:
  assumes "shape_ok lim window l" and "config_ok window" and "time_ok t"
  shows "epoch l t = Some (slice_of (window div 2) t)"
proof -
  have b: "2 \<le> window div 2" using assms(2) by (rule bucket_pos)
  have t: "0 \<le> t - unix_epoch" "t - unix_epoch < 2 ^ 63" using assms(3) by (auto simp: time_ok_def)
  then have u: "unixNano t = t - unix_epoch" unfolding unixNano_def by (intro wrap64_id) auto
  have "go_quot (t - unix_epoch) (window div 2) = slice_of (window div 2) t"
    using b t(1) by (cases "t - unix_epoch = 0") (auto simp: go_quot_def slice_of_def)
  moreover have "wrap64 (slice_of (window div 2) t) = slice_of (window div 2) t"
    using slice_range [OF assms(2,3)] by (intro wrap64_id) auto
  ultimately show ?thesis using assms(1) b u by (simp add: epoch_def shape_ok_def)
qed

lemma limiter_later:
  assumes "limiter_ok lim window s (lg, l)" and "config_ok window" and "s \<le> t"
  shows "limiter_ok lim window t (lg, l)"
  using assms key_later [OF _ bucket_pos(2) [OF assms(2)] assms(3)] by (auto simp: limiter_ok_def)

lemma find_entry_key:
  assumes "shape_ok lim window l"
  shows "entry_of_key l k = map_option (lk_entry (al_entries l)) (lk_find k (al_entries l))"
  using assms lk.find_map_of [of "al_entries l" k] by (simp add: shape_ok_def entry_of_key_def)

lemma limiter_pruned:
  assumes "limiter_ok lim window now (lg, l)" and "config_ok window"
  shows "limiter_ok lim window now (lg, pruneExpired now l)"
proof -
  let ?expired = "\<lambda>e. \<not> time_Sub now (le_seenAt e) < window"
  have s: "shape_ok lim window l" using assms(1) by (simp add: limiter_ok_def)
  then have ok: "lk_ok (al_entries l)" by (simp add: shape_ok_def)
  note p = lk_prune_abs [OF ok, of ?expired]
  have w: "al_window l = window" using s by (simp add: shape_ok_def)
  have "key_ok (window div 2) (unat lim) now A R (entry_of_key (pruneExpired now l) k)"
    if k: "key_ok (window div 2) (unat lim) now A R (entry_of_key l k)" for k A R
  proof -
    have "entry_of_key (pruneExpired now l) k = entry_of_key l k
      \<or> entry_of_key (pruneExpired now l) k = None \<and> (\<exists>e. entry_of_key l k = Some e \<and> ?expired e)"
      using map_of_dropWhile [OF lk.abs_distinct [OF ok], of "\<lambda>x. ?expired (snd x)" k] p
      by (simp add: entry_of_key_def pruneExpired_def w)
    then show ?thesis
    proof
      assume "entry_of_key (pruneExpired now l) k = None \<and> (\<exists>e. entry_of_key l k = Some e \<and> ?expired e)"
      then obtain e where e: "entry_of_key l k = Some e" "window \<le> now - le_seenAt e" "entry_of_key (pruneExpired now l) k = None"
        using assms(2) time_Sub_less [of window now] by (auto simp: config_ok_def)
      have "2 * (window div 2) \<le> now - le_seenAt e" using e(2) by linarith
      then show ?thesis using key_pruned [OF k [unfolded e(1)] bucket_pos(2) [OF assms(2)]] e(3) by simp
    qed (use k in simp)
  qed
  moreover have "shape_ok lim window (pruneExpired now l)"
    using s p by (simp add: shape_ok_def pruneExpired_def)
  ultimately show ?thesis using assms(1) by (simp add: limiter_ok_def)
qed

text \<open>An operation that only changes the entry of \<open>k\<close> and its part of the log.\<close>

lemma limiter_update:
  assumes "limiter_ok lim window now (lg, l)" and "shape_ok lim window l'"
    and "\<And>k'. k' \<noteq> k \<Longrightarrow> entry_of_key l' k' = entry_of_key l k'
      \<and> admitted (window div 2) lg' k' = admitted (window div 2) lg k' \<and> removed (window div 2) lg' k' = removed (window div 2) lg k'"
    and "key_ok (window div 2) (unat lim) now (admitted (window div 2) lg' k) (removed (window div 2) lg' k) (entry_of_key l' k)"
  shows "limiter_ok lim window now (lg', l')"
proof -
  have "key_ok (window div 2) (unat lim) now (admitted (window div 2) lg' k') (removed (window div 2) lg' k') (entry_of_key l' k')" for k'
    using assms(1,3,4) by (cases "k' = k") (simp_all add: limiter_ok_def)
  then show ?thesis using assms(2) by (simp add: limiter_ok_def)
qed

lemma limiter_key:
  "limiter_ok lim window now (lg, l) \<Longrightarrow>
     key_ok (window div 2) (unat lim) now (admitted (window div 2) lg k) (removed (window div 2) lg k) (entry_of_key l k)"
  by (simp add: limiter_ok_def)

lemma shape_set:
  assumes "shape_ok lim window l" and "lk_find k (al_entries l) = Some a" and "l' = l\<lparr>al_entries := lk_set a e (al_entries l)\<rparr>"
  shows "shape_ok lim window l'" and "entry_of_key l' = (entry_of_key l)(k \<mapsto> e)" and "lk_find k (al_entries l') = Some a"
    and "lk_entry (al_entries l') a = e"
proof -
  have ok: "lk_ok (al_entries l)" using assms(1) by (simp add: shape_ok_def)
  note p = lk.put_abs [OF ok assms(2), of e] and v = lk.put_view [OF ok assms(2), of e]
  show "shape_ok lim window l'" using assms(1) p by (simp add: shape_ok_def assms(3))
  show "entry_of_key l' = (entry_of_key l)(k \<mapsto> e)" using v by (simp add: entry_of_key_def fun_eq_iff assms(3))
  show "lk_find k (al_entries l') = Some a" "lk_entry (al_entries l') a = e" using p by (simp_all add: assms(3))
qed

lemma limiter_rotated:
  assumes "limiter_ok lim window now (lg, l)" and "config_ok window" and "time_ok now" and "lk_find k (al_entries l) = Some a"
  obtains l' e where "rotateEntryLocked a now l = Some l'" "limiter_ok lim window now (lg, l')" "lk_find k (al_entries l') = Some a"
    "entry_of_key l' k = Some e" "lk_entry (al_entries l') a = e" "le_epoch e = slice_of (window div 2) now"
proof -
  let ?E = "slice_of (window div 2) now"
  let ?e = "rotate_entry ?E (lk_entry (al_entries l) a)"
  define l' where "l' = l\<lparr>al_entries := lk_set a ?e (al_entries l)\<rparr>"
  have s: "shape_ok lim window l" using assms(1) by (simp add: limiter_ok_def)
  have rot: "rotateEntryLocked a now l = Some l'"
    by (simp add: rotateEntryLocked_def epoch_slice [OF s assms(2,3)] l'_def)
  note p = shape_set [OF s assms(4) l'_def]
  have "entry_of_key l k = Some (lk_entry (al_entries l) a)" using find_entry_key [OF s, of k] assms(4) by simp
  note r = key_rotated [OF limiter_key [OF assms(1), of k, unfolded this] slice_range(2) [OF assms(2,3)]]
  have "limiter_ok lim window now (lg, l')"
    by (rule limiter_update [OF assms(1) p(1), of k]) (simp_all add: p(2) r(1))
  moreover have "entry_of_key l' k = Some ?e" by (simp add: p(2))
  ultimately show ?thesis using that rot p(3,4) r(2) by blast
qed

lemma count_add_ok:
  assumes base: "limiter_ok lim window now (lg, l0)" and s: "shape_ok lim window l" and a: "lk_find k (al_entries l) = Some a"
    and e: "entry_of_key l = (entry_of_key l0)(k \<mapsto> e)" "lk_entry (al_entries l) a = e" "le_epoch e = slice_of (window div 2) now"
    and fits: "entry_fits (unat lim) (admitted (window div 2) lg k) (removed (window div 2) lg k) e"
    and full: "lim \<le> le_current e + le_prev e \<Longrightarrow>
      key_ok (window div 2) (unat lim) now (admitted (window div 2) lg k) (removed (window div 2) lg k) (Some e)"
    and t: "0 \<le> slice_of (window div 2) now" and r: "count_add a now l = (err, l')"
  shows "limiter_ok lim window now (if err = None then lg @ [(True, k, now)] else lg, l')"
proof (cases "lim \<le> le_current e + le_prev e")
  case True
  then have "err \<noteq> None" "l' = l" using r s e(2) by (auto simp: count_add_def over_limit_def shape_ok_def)
  then show ?thesis
    using limiter_update [OF base s, of k lg] full [OF True] e(1) by auto
next
  case False
  let ?e = "e\<lparr>le_current := le_current e + 1, le_seenAt := now\<rparr>" and ?E = "slice_of (window div 2) now"
  define l1 where "l1 = l\<lparr>al_entries := lk_set a ?e (al_entries l)\<rparr>"
  note p = shape_set [OF s a l1_def]
  have l': "err = None" "l' = l1\<lparr>al_entries := lk_to_back a (al_entries l1)\<rparr>"
    using r s e(2) False by (auto simp: count_add_def over_limit_def shape_ok_def l1_def)
  have ok1: "lk_ok (al_entries l1)" using p(1) by (simp add: shape_ok_def)
  have s': "shape_ok lim window l'" using p(1) lk.to_back_abs [OF ok1 p(3)] by (simp add: shape_ok_def l')
  have v: "entry_of_key l' = (entry_of_key l0)(k \<mapsto> ?e)"
    using lk.to_back_view [OF ok1 p(3)] p(2,4) e(1) by (simp add: entry_of_key_def l' fun_eq_iff)
  have lg: "admitted (window div 2) (lg @ [(True, k, now)]) k = (admitted (window div 2) lg k)(?E := admitted (window div 2) lg k ?E + 1)"
    "removed (window div 2) (lg @ [(True, k, now)]) k = removed (window div 2) lg k"
    by (auto simp: logged fun_eq_iff)
  have "key_ok (window div 2) (unat lim) now (admitted (window div 2) (lg @ [(True, k, now)]) k)
      (removed (window div 2) (lg @ [(True, k, now)]) k) (entry_of_key l' k)"
    using key_added [OF limiter_key [OF base, of k] fits e(3) False t] unfolding lg v by simp
  then have "limiter_ok lim window now (lg @ [(True, k, now)], l')"
    by (intro limiter_update [OF base s', of k]) (simp_all add: logged v fun_eq_iff)
  then show ?thesis by (simp add: l')
qed

lemma limiter_add:
  assumes base: "limiter_ok lim window now (lg, l0)" and c: "config_ok window" and t: "time_ok now"
  shows "\<exists>s'. limiter_call (LAdd k now) (lg, l0) = Some s' \<and> limiter_ok lim window now s'"
proof -
  define l where "l = pruneExpired now l0"
  have b: "limiter_ok lim window now (lg, l)" unfolding l_def using base c by (rule limiter_pruned)
  then have s: "shape_ok lim window l" by (simp add: limiter_ok_def)
  then have ok: "lk_ok (al_entries l)" by (simp add: shape_ok_def)
  let ?E = "slice_of (window div 2) now"
  have "\<exists>err l'. Add_address k now l0 = Some (err, l') \<and> limiter_ok lim window now (if err = None then lg @ [(True, k, now)] else lg, l')"
  proof (cases "lk_find k (al_entries l)")
    case (Some a)
    obtain l1 e where l1: "rotateEntryLocked a now l = Some l1" "limiter_ok lim window now (lg, l1)" "lk_find k (al_entries l1) = Some a"
      "entry_of_key l1 k = Some e" "lk_entry (al_entries l1) a = e" "le_epoch e = ?E"
      using limiter_rotated [OF b c t Some] by blast
    have "entry_of_key l1 = (entry_of_key l1)(k \<mapsto> e)" using l1(4) by auto
    moreover have ke: "key_ok (window div 2) (unat lim) now (admitted (window div 2) lg k) (removed (window div 2) lg k) (Some e)"
      using limiter_key [OF l1(2), of k] l1(4) by simp
    moreover obtain err l' where "count_add a now l1 = (err, l')" by fastforce
    ultimately show ?thesis
      using count_add_ok [OF l1(2) _ l1(3) _ l1(5,6) _ _ slice_range(1) [OF c t], of err l'] l1(1,2) Some
      by (auto simp: Add_address_def l_def [symmetric] Let_def key_ok_def limiter_ok_def)
  next
    case None
    show ?thesis
    proof (cases "al_maxEntries l \<le> int (lk_len (al_entries l))")
      case True
      then show ?thesis using None b by (simp add: Add_address_def l_def [symmetric] Let_def)
    next
      case False
      let ?e = "\<lparr>le_epoch = ?E, le_current = 0, le_prev = 0, le_seenAt = 0\<rparr>"
      obtain a es where p: "lk_push k ?e (al_entries l) = (a, es)" by fastforce
      note q = lk.push_abs [OF ok None p] lk.push_view [OF ok None p]
      define l1 where "l1 = l\<lparr>al_entries := es\<rparr>"
      have l1: "shape_ok lim window l1" "lk_find k (al_entries l1) = Some a" "entry_of_key l1 = (entry_of_key l)(k \<mapsto> ?e)" "lk_entry (al_entries l1) a = ?e"
        using s q by (auto simp: shape_ok_def l1_def entry_of_key_def fun_eq_iff)
      have none: "entry_of_key l k = None" using find_entry_key [OF s, of k] None by simp
      note kn = limiter_key [OF b, of k, unfolded none]
      have "key_ok (window div 2) (unat lim) now (admitted (window div 2) lg k) (removed (window div 2) lg k) (Some ?e)" if "lim \<le> 0"
        using kn that slice_range(1) [OF c t] key_fresh [OF kn slice_range(1) [OF c t]] by (simp add: key_ok_def)
      moreover obtain err l' where r: "count_add a now l1 = (err, l')" by fastforce
      ultimately have "limiter_ok lim window now (if err = None then lg @ [(True, k, now)] else lg, l')"
        using key_fresh [OF kn slice_range(1) [OF c t]] slice_range(1) [OF c t]
        by (intro count_add_ok [OF b l1(1,2,3,4) _ _ _ _ r]) auto
      then show ?thesis
        using None False p r epoch_slice [OF s c t] by (auto simp: Add_address_def l_def [symmetric] Let_def l1_def [symmetric])
    qed
  qed
  then obtain err l' where "Add_address k now l0 = Some (err, l')"
    "limiter_ok lim window now (if err = None then lg @ [(True, k, now)] else lg, l')" by blast
  then show ?thesis by (cases "err = None") auto
qed

lemma limiter_check:
  assumes base: "limiter_ok lim window now (lg, l0)" and c: "config_ok window" and t: "time_ok now"
  shows "\<exists>s'. limiter_call (LCheck k now) (lg, l0) = Some s' \<and> limiter_ok lim window now s'"
proof -
  define l where "l = pruneExpired now l0"
  have b: "limiter_ok lim window now (lg, l)" unfolding l_def using base c by (rule limiter_pruned)
  show ?thesis
  proof (cases "lk_find k (al_entries l)")
    case None
    then show ?thesis using b by (simp add: Check_address_def l_def [symmetric])
  next
    case (Some a)
    then show ?thesis using limiter_rotated [OF b c t Some] by (fastforce simp: Check_address_def l_def [symmetric])
  qed
qed

lemma limiter_remove:
  assumes b: "limiter_ok lim window now (lg, l)" and c: "config_ok window" and t: "time_ok now"
  shows "\<exists>s'. limiter_call (LRemove k now) (lg, l) = Some s' \<and> limiter_ok lim window now s'"
proof -
  let ?E = "slice_of (window div 2) now"
  have lg: "removed (window div 2) (lg @ [(False, k, now)]) k = (removed (window div 2) lg k)(?E := removed (window div 2) lg k ?E + 1)"
    "admitted (window div 2) (lg @ [(False, k, now)]) k = admitted (window div 2) lg k"
    by (auto simp: logged fun_eq_iff)
  have s: "shape_ok lim window l" using b by (simp add: limiter_ok_def)
  have "\<exists>l'. Remove_address k now l = Some l' \<and> limiter_ok lim window now (lg @ [(False, k, now)], l')"
  proof (cases "lk_find k (al_entries l)")
    case None
    then have "entry_of_key l k = None" using find_entry_key [OF s, of k] by simp
    then have "key_ok (window div 2) (unat lim) now (admitted (window div 2) (lg @ [(False, k, now)]) k)
        (removed (window div 2) (lg @ [(False, k, now)]) k) (entry_of_key l k)"
      using key_remove_absent [of "window div 2" "unat lim" now] limiter_key [OF b, of k] unfolding lg by simp
    then have "limiter_ok lim window now (lg @ [(False, k, now)], l)"
      by (intro limiter_update [OF b s, of k]) (simp_all add: logged fun_eq_iff)
    then show ?thesis using None by (simp add: Remove_address_def)
  next
    case (Some a)
    obtain l1 e where l1: "rotateEntryLocked a now l = Some l1" "limiter_ok lim window now (lg, l1)" "lk_find k (al_entries l1) = Some a"
      "entry_of_key l1 k = Some e" "lk_entry (al_entries l1) a = e" "le_epoch e = ?E"
      using limiter_rotated [OF b c t Some] by blast
    define l2 where "l2 = l1\<lparr>al_entries := lk_set a (give_back e) (al_entries l1)\<rparr>"
    have s1: "shape_ok lim window l1" using l1(2) by (simp add: limiter_ok_def)
    note p = shape_set [OF s1 l1(3) l2_def]
    note g = key_given_back [OF limiter_key [OF l1(2), of k, unfolded l1(4)] l1(6)]
    let ?gone = "le_current (give_back e) = 0 \<and> le_prev (give_back e) = 0"
    define l3 where "l3 = (if ?gone then deleteEntryLocked a l2 else l2)"
    have ok2: "lk_ok (al_entries l2)" using p(1) by (simp add: shape_ok_def)
    have "shape_ok lim window l3" using p(1) lk.remove_abs [OF ok2 p(3)] by (auto simp: shape_ok_def l3_def deleteEntryLocked_def)
    moreover have "entry_of_key l3 = (entry_of_key l1)(k := if ?gone then None else Some (give_back e))"
      using lk.remove_view [OF ok2 p(3)] p(2) by (auto simp: l3_def deleteEntryLocked_def entry_of_key_def fun_eq_iff)
    moreover from this have "key_ok (window div 2) (unat lim) now (admitted (window div 2) (lg @ [(False, k, now)]) k)
        (removed (window div 2) (lg @ [(False, k, now)]) k) (entry_of_key l3 k)"
      using g unfolding lg by simp
    ultimately have "limiter_ok lim window now (lg @ [(False, k, now)], l3)"
      by (intro limiter_update [OF l1(2), of _ k]) (simp_all add: logged fun_eq_iff)
    moreover have "Remove_address k now l = Some l3"
      using Some l1(1,5) by (simp add: Remove_address_def Let_def l2_def [symmetric] l3_def)
    ultimately show ?thesis by blast
  qed
  then show ?thesis by auto
qed

lemma limiter_call_ok:
  assumes "limiter_ok lim window s st" and "config_ok window" and "s \<le> call_time call" and "time_ok (call_time call)"
  shows "\<exists>st'. limiter_call call st = Some st' \<and> limiter_ok lim window (call_time call) st'"
proof -
  obtain lg l where st: "st = (lg, l)" by (cases st)
  have later: "limiter_ok lim window (call_time call) (lg, l)" using limiter_later assms(1-3) unfolding st by blast
  show ?thesis
    unfolding st using assms(2,4) later limiter_check limiter_add limiter_remove by (cases call) (metis call_time.simps)+
qed

lemma limiter_calls_ok:
  assumes "limiter_ok lim window s st" and "config_ok window" and "sorted (s # map call_time calls)" and "\<forall>c \<in> set calls. time_ok (call_time c)"
  shows "\<exists>st' s'. limiter_calls calls st = Some st' \<and> limiter_ok lim window s' st'"
  using assms
proof (induction calls arbitrary: s st)
  case (Cons c cs)
  have "s \<le> call_time c" "time_ok (call_time c)" using Cons.prems(3,4) by auto
  then obtain st1 where st1: "limiter_call c st = Some st1" "limiter_ok lim window (call_time c) st1"
    using limiter_call_ok [OF Cons.prems(1,2)] by blast
  then show ?case using Cons.IH [OF st1(2) Cons.prems(2)] Cons.prems(3,4) by auto
qed auto

text \<open>
  C19. The address limiter holds its limit: no call sequence with a monotone clock panics, and for every
  address and every two adjacent buckets (half windows) the number of admitted messages exceeds the limit by at most the messages
  removed in them; so without removals no stretch of half a window admits more than the limit, although
  entries are pruned, rotated and deleted in between.
\<close>

theorem AddressLimiter_bound:
  assumes "4 \<le> window" and "window < 2 ^ 63"
    and "sorted (map call_time calls)" and "\<forall>c \<in> set calls. unix_epoch \<le> call_time c \<and> call_time c < unix_epoch + 2 ^ 63"
  shows "\<exists>lg l. limiter_calls calls ([], NewAddressLimiter limit window maxEntries) = Some (lg, l)
    \<and> (\<forall>key f. admitted (window div 2) lg key f + admitted (window div 2) lg key (f + 1)
          \<le> nat (limit mod 2 ^ 16) + removed (window div 2) lg key f + removed (window div 2) lg key (f + 1))"
proof -
  let ?b = "window div 2" and ?lim = "word_of_int limit :: u16"
  have c: "config_ok window" using assms(1,2) by (simp add: config_ok_def)
  have "go_quot window 2 = ?b" using assms(1) by (simp add: go_quot_def)
  then have "limiter_ok ?lim window unix_epoch ([], NewAddressLimiter limit window maxEntries)"
    by (auto simp: limiter_ok_def shape_ok_def NewAddressLimiter_def lk_ok_new entry_of_key_def key_ok_def pairs_fit_def
        absent_fits_def admitted_def)
  moreover have "sorted (unix_epoch # map call_time calls)" "\<forall>c \<in> set calls. time_ok (call_time c)"
    using assms(3,4) by (auto simp: time_ok_def)
  ultimately obtain lg l s' where r: "limiter_calls calls ([], NewAddressLimiter limit window maxEntries) = Some (lg, l)"
    "limiter_ok ?lim window s' (lg, l)"
    using limiter_calls_ok [OF _ c] by (metis surj_pair)
  have "unat ?lim = nat (limit mod 2 ^ 16)" by (simp add: unsigned_of_int take_bit_eq_mod)
  moreover have "pairs_fit (unat ?lim) (admitted ?b lg key) (removed ?b lg key)" for key
    using limiter_key [OF r(2), of key] by (simp add: key_ok_def)
  ultimately show ?thesis using r(1) by (auto simp: pairs_fit_def)
qed

theorem AddressLimiter_bound_witness:
  "\<exists>lg l. limiter_calls [LAdd \<lparr>ak_Workchain = 0, ak_Account = 1\<rparr> unix_epoch, LAdd \<lparr>ak_Workchain = 0, ak_Account = 1\<rparr> (unix_epoch + 3)]
      ([], NewAddressLimiter 1 4 10) = Some (lg, l)
    \<and> admitted 2 lg \<lparr>ak_Workchain = 0, ak_Account = 1\<rparr> 0 + admitted 2 lg \<lparr>ak_Workchain = 0, ak_Account = 1\<rparr> 1
      \<le> 1 + removed 2 lg \<lparr>ak_Workchain = 0, ak_Account = 1\<rparr> 0 + removed 2 lg \<lparr>ak_Workchain = 0, ak_Account = 1\<rparr> 1"
proof -
  let ?k = "\<lparr>ak_Workchain = 0, ak_Account = 1\<rparr>"
  let ?calls = "[LAdd ?k unix_epoch, LAdd ?k (unix_epoch + 3)]"
  obtain lg l where "limiter_calls ?calls ([], NewAddressLimiter 1 4 10) = Some (lg, l)"
    "\<forall>key f. admitted (4 div 2) lg key f + admitted (4 div 2) lg key (f + 1)
       \<le> nat (1 mod 2 ^ 16) + removed (4 div 2) lg key f + removed (4 div 2) lg key (f + 1)"
    using AddressLimiter_bound [of 4 ?calls 1 10] by (auto simp del: limiter_calls.simps)
  moreover from this(2) [rule_format, of ?k 0]
  have "admitted 2 lg ?k 0 + admitted 2 lg ?k 1 \<le> 1 + removed 2 lg ?k 0 + removed 2 lg ?k 1" by simp
  ultimately show ?thesis by blast
qed

end
