(* ===== verification/Spec2Isabelle.thy ===== *)
theory Spec2Isabelle
  imports EngineVotes Shard Packfile BoundedQueue EventDedupe AddressLimiter
begin

text \<open>
  Verification of the Simplex consensus engine of the TON node and of supporting components.
\<close>

end
